theory Spec2Isabelle
  imports Main
begin

section \<open>Data model\<close>

text \<open>
  The repository holds two drafts of the same program: \<^verbatim>\<open>src/main.go\<close> and
  \<^verbatim>\<open>src/unnamed/part_000\<close>. Where the two drafts agree, one definition stands for
  both. Where they differ, the definition translated from \<^verbatim>\<open>src/unnamed/part_000\<close>
  keeps the source's name and the one translated from \<^verbatim>\<open>src/main.go\<close> carries the
  suffix \<open>_main\<close>.

  Strings are byte lists. A Go \<^verbatim>\<open>*bool\<close> is a \<open>bool option\<close> (\<open>None\<close> is the
  nil pointer): no statement of the program writes through such a pointer, so the
  sharing of the pointee between copies of a struct is not observable.
\<close>

record Release =
  Name :: string
  Chart :: string
  Version :: string
  Installed :: "bool option"

record HelmChartInfo =
  info_Name :: string
  info_Version :: string
  info_Installed :: "bool option"

record Helmfile =
  Releases :: "Release list"

record ReleaseComparer =
  Current :: Release
  Latest :: Release

text \<open>
  \<^verbatim>\<open>[]*ReleaseComparer\<close>: a slice of pointers, each of which may be nil.
\<close>

record UpdateManager =
  Helmfile :: Helmfile
  Comparisons :: "ReleaseComparer option list"

text \<open>
  Go errors as values. \<open>ExternalError\<close> is an error produced outside the program
  (by the version library, by running \<^verbatim>\<open>helm\<close>, by the YAML decoder); every other
  constructor is one \<^verbatim>\<open>fmt.Errorf\<close> or \<^verbatim>\<open>errors.Join\<close> of the source.
\<close>

datatype error =
    ExternalError string
  | FailedToParseCurrentVersion string string error
  | FailedToParseLatestVersion string string error
  | FailedToSearchForChart string error
  | FailedToUnmarshalYAML error
  | ChartNotFound string
  | FailedToGetReleaseComparer string error
  | Joined "error list"

text \<open>
  A panic ends the whole process: a runtime nil-pointer dereference, a slice index out of
  range, or an explicit \<^verbatim>\<open>panic(err)\<close>.
\<close>

datatype panic = NilPointerDereference | IndexOutOfRange | PanicWith error

text \<open>The lines \<^verbatim>\<open>log.Printf\<close> writes in \<^verbatim>\<open>src/unnamed/part_000\<close>.\<close>

datatype log_line =
    LogFailedToParseCurrent string string error
  | LogFailedToParseLatest string string error

section \<open>Strings\<close>

definition HasPrefix :: "string \<Rightarrow> string \<Rightarrow> bool" where
  "HasPrefix s p = (take (length p) s = p)"

definition TrimPrefix :: "string \<Rightarrow> string \<Rightarrow> string" where
  "TrimPrefix s p = (if HasPrefix s p then drop (length p) s else s)"

section \<open>The semantic-version library\<close>

text \<open>
  \<^verbatim>\<open>github.com/Masterminds/semver/v3\<close> is imported by both drafts and is not part of
  the repository. The comparator takes its two operations as a parameter: the parser
  \<^verbatim>\<open>semver.NewVersion\<close> and the comparison \<^verbatim>\<open>(*Version).LessThan\<close>.
\<close>

record 'v semver_lib =
  NewVersion :: "string \<Rightarrow> error + 'v"
  LessThan :: "'v \<Rightarrow> 'v \<Rightarrow> bool"

section \<open>The comparator\<close>

text \<open>
  \<^verbatim>\<open>ReleaseComparer.HasUpdate\<close> of \<^verbatim>\<open>src/unnamed/part_000\<close> (lines 64-85): a parse
  failure is logged and the result is \<open>False\<close>. The second component is the log output.
\<close>

definition HasUpdate :: "'v semver_lib \<Rightarrow> ReleaseComparer \<Rightarrow> bool \<times> log_line list" where
  "HasUpdate lib rc =
     (let currentVersion = TrimPrefix (Version (Current rc)) ''v'';
          latestVersion = TrimPrefix (Version (Latest rc)) ''v''
      in if currentVersion = latestVersion then (False, [])
         else (case NewVersion lib currentVersion of
                 Inl err \<Rightarrow>
                   (False, [LogFailedToParseCurrent (Name (Current rc)) currentVersion err])
               | Inr currentSemver \<Rightarrow>
                   (case NewVersion lib latestVersion of
                      Inl err \<Rightarrow>
                        (False, [LogFailedToParseLatest (Name (Current rc)) latestVersion err])
                    | Inr latestSemver \<Rightarrow> (LessThan lib currentSemver latestSemver, []))))"

text \<open>
  \<^verbatim>\<open>ReleaseComparer.HasUpdate\<close> of \<^verbatim>\<open>src/main.go\<close> (lines 63-82): a parse failure
  panics.
\<close>

definition HasUpdate_main :: "'v semver_lib \<Rightarrow> ReleaseComparer \<Rightarrow> panic + bool" where
  "HasUpdate_main lib rc =
     (let currentVersion = TrimPrefix (Version (Current rc)) ''v'';
          latestVersion = TrimPrefix (Version (Latest rc)) ''v''
      in if currentVersion = latestVersion then Inr False
         else (case NewVersion lib currentVersion of
                 Inl err \<Rightarrow>
                   Inl (PanicWith
                     (FailedToParseCurrentVersion (Name (Current rc)) currentVersion err))
               | Inr currentSemver \<Rightarrow>
                   (case NewVersion lib latestVersion of
                      Inl err \<Rightarrow>
                        Inl (PanicWith
                          (FailedToParseLatestVersion (Name (Current rc)) latestVersion err))
                    | Inr latestSemver \<Rightarrow> Inr (LessThan lib currentSemver latestSemver))))"

text \<open>
  The method has a pointer receiver, and the slice \<^verbatim>\<open>um.Comparisons\<close> may hold nil
  pointers. The call itself succeeds on a nil receiver; the first statement of the body
  reads \<^verbatim>\<open>rc.Current.Version\<close> and that read panics.
\<close>

definition HasUpdate_ptr ::
  "'v semver_lib \<Rightarrow> ReleaseComparer option \<Rightarrow> (panic + bool) \<times> log_line list" where
  "HasUpdate_ptr lib p =
     (case p of
        None \<Rightarrow> (Inl NilPointerDereference, [])
      | Some rc \<Rightarrow> (Inr (fst (HasUpdate lib rc)), snd (HasUpdate lib rc)))"

definition HasUpdate_ptr_main ::
  "'v semver_lib \<Rightarrow> ReleaseComparer option \<Rightarrow> panic + bool" where
  "HasUpdate_ptr_main lib p =
     (case p of
        None \<Rightarrow> Inl NilPointerDereference
      | Some rc \<Rightarrow> HasUpdate_main lib rc)"

text \<open>
  \<^verbatim>\<open>UpdateManager.HasUpdates\<close> (part_000 lines 98-105, main.go lines 95-102): the loop
  returns at the first comparer that has an update; a panic inside the loop ends it.
\<close>

fun HasUpdates_loop ::
  "'v semver_lib \<Rightarrow> ReleaseComparer option list \<Rightarrow> (panic + bool) \<times> log_line list" where
  "HasUpdates_loop lib [] = (Inr False, [])"
| "HasUpdates_loop lib (comparer # rest) =
     (case HasUpdate_ptr lib comparer of
        (Inl p, lg) \<Rightarrow> (Inl p, lg)
      | (Inr True, lg) \<Rightarrow> (Inr True, lg)
      | (Inr False, lg) \<Rightarrow>
          (fst (HasUpdates_loop lib rest), lg @ snd (HasUpdates_loop lib rest)))"

definition HasUpdates ::
  "'v semver_lib \<Rightarrow> UpdateManager \<Rightarrow> (panic + bool) \<times> log_line list" where
  "HasUpdates lib um = HasUpdates_loop lib (Comparisons um)"

fun HasUpdates_loop_main ::
  "'v semver_lib \<Rightarrow> ReleaseComparer option list \<Rightarrow> panic + bool" where
  "HasUpdates_loop_main lib [] = Inr False"
| "HasUpdates_loop_main lib (comparer # rest) =
     (case HasUpdate_ptr_main lib comparer of
        Inl p \<Rightarrow> Inl p
      | Inr True \<Rightarrow> Inr True
      | Inr False \<Rightarrow> HasUpdates_loop_main lib rest)"

definition HasUpdates_main :: "'v semver_lib \<Rightarrow> UpdateManager \<Rightarrow> panic + bool" where
  "HasUpdates_main lib um = HasUpdates_loop_main lib (Comparisons um)"

section \<open>The registry lookup\<close>

text \<open>
  The two external operations of \<^verbatim>\<open>GetReleaseComparer\<close>: the output of the command
  \<^verbatim>\<open>helm search repo <chart> --output yaml\<close> (\<^verbatim>\<open>cmd.Output()\<close>) and the decoding of
  that output by \<^verbatim>\<open>yaml.Unmarshal\<close> into a \<^verbatim>\<open>[]HelmChartInfo\<close>.
\<close>

record gateway =
  helm_search_repo :: "string \<Rightarrow> error + string"
  yaml_Unmarshal :: "string \<Rightarrow> error + HelmChartInfo list"

text \<open>
  \<^verbatim>\<open>UpdateManager.GetReleaseComparer\<close> (part_000 lines 131-168, main.go lines 128-167;
  the two drafts differ only in the name of a local variable). The release is passed by
  value, so the assignment to \<^verbatim>\<open>release.Installed\<close> changes the callee's copy. The
  first component of the result lists the chart references for which the external search
  command was run.
\<close>

definition GetReleaseComparer ::
  "gateway \<Rightarrow> Release \<Rightarrow> string list \<times> (error + ReleaseComparer)" where
  "GetReleaseComparer gw release0 =
     (let release = (if Installed release0 = None
                     then release0\<lparr>Installed := Some True\<rparr> else release0)
      in if HasPrefix (Chart release) ''/'' \<or> HasPrefix (Chart release) ''./''
            \<or> HasPrefix (Chart release) ''../''
         then ([], Inr \<lparr>Current = release, Latest = release\<rparr>)
         else (case helm_search_repo gw (Chart release) of
                 Inl err \<Rightarrow>
                   ([Chart release], Inl (FailedToSearchForChart (Chart release) err))
               | Inr output \<Rightarrow>
                   (case yaml_Unmarshal gw output of
                      Inl err \<Rightarrow> ([Chart release], Inl (FailedToUnmarshalYAML err))
                    | Inr [] \<Rightarrow> ([Chart release], Inl (ChartNotFound (Chart release)))
                    | Inr (chart0 # _) \<Rightarrow>
                        ([Chart release],
                         Inr \<lparr>Current = release,
                              Latest = \<lparr>Name = Name release,
                                        Chart = info_Name chart0,
                                        Version = info_Version chart0,
                                        Installed = info_Installed chart0\<rparr>\<rparr>))))"

section \<open>The update detection engine\<close>

text \<open>
  \<^verbatim>\<open>NewUpdateManager\<close> (both drafts): \<^verbatim>\<open>Comparisons\<close> starts as the nil slice.
\<close>

definition NewUpdateManager :: "Helmfile \<Rightarrow> UpdateManager" where
  "NewUpdateManager helmfile = \<lparr>Helmfile = helmfile, Comparisons = []\<rparr>"

text \<open>
  \<^verbatim>\<open>errors.Join\<close>: nil arguments are discarded; the result is nil when nothing is left.
\<close>

definition Join :: "error option list \<Rightarrow> error option" where
  "Join errs =
     (let es = List.map_filter (\<lambda>e. e) errs in if es = [] then None else Some (Joined es))"

text \<open>
  \<^verbatim>\<open>CheckForUpdates\<close> starts one goroutine per release and waits for all of them. A
  goroutine is a task with its own copies of \<^verbatim>\<open>i\<close> and \<^verbatim>\<open>release\<close> (the arguments of
  the function literal), its local variable \<^verbatim>\<open>comparer\<close> and a program counter. The
  variables the goroutines share are the slice \<^verbatim>\<open>comparisons\<close> and, in
  \<^verbatim>\<open>src/unnamed/part_000\<close> only, the variable \<^verbatim>\<open>err\<close> declared outside the loop.
  An execution is an interleaving of the goroutines' statements, each statement atomic,
  given by a schedule: the list of the tasks that take the successive steps. A panic in
  any goroutine ends the process, after which nothing runs.
\<close>

record task =
  task_i :: nat
  task_release :: Release
  pc :: nat
  comparer :: "ReleaseComparer option"

record run_state =
  err :: "error option"
  comparisons :: "ReleaseComparer option list"
  tasks :: "task list"
  calls :: "string list"
  crashed :: "panic option"

definition spawn :: "Release list \<Rightarrow> run_state" where
  "spawn releases =
     \<lparr>err = None,
      comparisons = replicate (length releases) None,
      tasks = map (\<lambda>(i, release). \<lparr>task_i = i, task_release = release, pc = 0, comparer = None\<rparr>)
                (zip [0..<length releases] releases),
      calls = [],
      crashed = None\<rparr>"

text \<open>
  One statement of the goroutine of \<^verbatim>\<open>src/unnamed/part_000\<close> (lines 178-189):
  \<^item> at 0, \<^verbatim>\<open>comparer, err = um.GetReleaseComparer(release)\<close>, which assigns the shared
    \<^verbatim>\<open>err\<close> whether the lookup failed or not;
  \<^item> at 1, \<^verbatim>\<open>if err != nil { err = errors.Join(err, fmt.Errorf(..., release.Name, err)) }\<close>,
    which reads the shared \<^verbatim>\<open>err\<close>;
  \<^item> at 2, \<^verbatim>\<open>comparisons[i] = comparer\<close>;
  \<^item> at 3 the goroutine has ended.
\<close>

definition task_step :: "gateway \<Rightarrow> nat \<Rightarrow> run_state \<Rightarrow> run_state" where
  "task_step gw k st =
     (if crashed st \<noteq> None \<or> \<not> k < length (tasks st) then st
      else let t = tasks st ! k in
        if pc t = 0 then
          (case GetReleaseComparer gw (task_release t) of
             (cs, Inl e) \<Rightarrow>
               st\<lparr>err := Some e, calls := calls st @ cs,
                  tasks := (tasks st)[k := t\<lparr>pc := 1, comparer := None\<rparr>]\<rparr>
           | (cs, Inr c) \<Rightarrow>
               st\<lparr>err := None, calls := calls st @ cs,
                  tasks := (tasks st)[k := t\<lparr>pc := 1, comparer := Some c\<rparr>]\<rparr>)
        else if pc t = 1 then
          (case err st of
             None \<Rightarrow> st\<lparr>tasks := (tasks st)[k := t\<lparr>pc := 2\<rparr>]\<rparr>
           | Some e \<Rightarrow>
               st\<lparr>err := Join [Some e,
                                Some (FailedToGetReleaseComparer (Name (task_release t)) e)],
                  tasks := (tasks st)[k := t\<lparr>pc := 2\<rparr>]\<rparr>)
        else if pc t = 2 then
          (if task_i t < length (comparisons st)
           then st\<lparr>comparisons := (comparisons st)[task_i t := comparer t],
                   tasks := (tasks st)[k := t\<lparr>pc := 3\<rparr>]\<rparr>
           else st\<lparr>crashed := Some IndexOutOfRange\<rparr>)
        else st)"

text \<open>
  One statement of the goroutine of \<^verbatim>\<open>src/main.go\<close> (lines 175-184), where \<^verbatim>\<open>err\<close>
  is local to the goroutine:
  \<^item> at 0, \<^verbatim>\<open>comparer, err := um.GetReleaseComparer(release)\<close> followed by
    \<^verbatim>\<open>if err != nil { panic(err) }\<close>;
  \<^item> at 1, \<^verbatim>\<open>comparisons[i] = comparer\<close>;
  \<^item> at 2 the goroutine has ended.
\<close>

definition task_step_main :: "gateway \<Rightarrow> nat \<Rightarrow> run_state \<Rightarrow> run_state" where
  "task_step_main gw k st =
     (if crashed st \<noteq> None \<or> \<not> k < length (tasks st) then st
      else let t = tasks st ! k in
        if pc t = 0 then
          (case GetReleaseComparer gw (task_release t) of
             (cs, Inl e) \<Rightarrow> st\<lparr>calls := calls st @ cs, crashed := Some (PanicWith e)\<rparr>
           | (cs, Inr c) \<Rightarrow>
               st\<lparr>calls := calls st @ cs,
                  tasks := (tasks st)[k := t\<lparr>pc := 1, comparer := Some c\<rparr>]\<rparr>)
        else if pc t = 1 then
          (if task_i t < length (comparisons st)
           then st\<lparr>comparisons := (comparisons st)[task_i t := comparer t],
                   tasks := (tasks st)[k := t\<lparr>pc := 2\<rparr>]\<rparr>
           else st\<lparr>crashed := Some IndexOutOfRange\<rparr>)
        else st)"

text \<open>
  Running a schedule, and \<^verbatim>\<open>wg.Wait()\<close>: the caller resumes only when every goroutine
  has ended. Whatever part of the work the schedule has left undone is carried out task by
  task, three steps each (a goroutine has at most three statements, and a step of a
  goroutine that has ended does nothing). After a schedule that already lets every
  goroutine end this changes nothing (lemmas \<open>wg_Wait_all_ended\<close> and
  \<open>wg_Wait_main_all_ended\<close>), so the executions of the model are the complete
  interleavings of the statements, sequentially consistent.
\<close>

definition run_schedule ::
  "(nat \<Rightarrow> run_state \<Rightarrow> run_state) \<Rightarrow> nat list \<Rightarrow> run_state \<Rightarrow> run_state" where
  "run_schedule step sched st = fold step sched st"

definition wg_Wait :: "(nat \<Rightarrow> run_state \<Rightarrow> run_state) \<Rightarrow> run_state \<Rightarrow> run_state" where
  "wg_Wait step st =
     fold step (concat (map (\<lambda>k. [k, k, k]) [0..<length (tasks st)])) st"

text \<open>
  \<^verbatim>\<open>UpdateManager.CheckForUpdates\<close> of \<^verbatim>\<open>src/unnamed/part_000\<close> (lines 170-195): the
  final state of the goroutines, then the result: \<^verbatim>\<open>um.Comparisons = comparisons\<close> and
  \<^verbatim>\<open>return err\<close>.
\<close>

definition CheckForUpdates_run :: "gateway \<Rightarrow> nat list \<Rightarrow> UpdateManager \<Rightarrow> run_state" where
  "CheckForUpdates_run gw sched um =
     wg_Wait (task_step gw)
       (run_schedule (task_step gw) sched (spawn (Releases (Helmfile um))))"

definition CheckForUpdates ::
  "gateway \<Rightarrow> nat list \<Rightarrow> UpdateManager \<Rightarrow> panic + (error option \<times> UpdateManager)" where
  "CheckForUpdates gw sched um =
     (let st = CheckForUpdates_run gw sched um
      in case crashed st of
           Some p \<Rightarrow> Inl p
         | None \<Rightarrow> Inr (err st, um\<lparr>Comparisons := comparisons st\<rparr>))"

text \<open>
  \<^verbatim>\<open>UpdateManager.CheckForUpdates\<close> of \<^verbatim>\<open>src/main.go\<close> (lines 169-192):
  \<^verbatim>\<open>um.Comparisons\<close> becomes a copy of \<^verbatim>\<open>comparisons\<close> and the result is always nil.
\<close>

definition CheckForUpdates_run_main ::
  "gateway \<Rightarrow> nat list \<Rightarrow> UpdateManager \<Rightarrow> run_state" where
  "CheckForUpdates_run_main gw sched um =
     wg_Wait (task_step_main gw)
       (run_schedule (task_step_main gw) sched (spawn (Releases (Helmfile um))))"

definition CheckForUpdates_main ::
  "gateway \<Rightarrow> nat list \<Rightarrow> UpdateManager \<Rightarrow> panic + (error option \<times> UpdateManager)" where
  "CheckForUpdates_main gw sched um =
     (let st = CheckForUpdates_run_main gw sched um
      in case crashed st of
           Some p \<Rightarrow> Inl p
         | None \<Rightarrow> Inr (None, um\<lparr>Comparisons := [] @ comparisons st\<rparr>))"

section \<open>A semantic-version library, from the spec\<close>

text \<open>
  Modelled from the spec: the version library \<^verbatim>\<open>github.com/Masterminds/semver/v3\<close> is
  an external dependency, absent from the repository's sources. The spec (section 4.2)
  describes what the comparator expects of it: versions are \<^verbatim>\<open>major.minor.patch\<close> with optional pre-release and build metadata,
  ordered by major, then minor, then patch, then pre-release precedence, build metadata
  ignored. The definitions below follow those words and the precedence rules of semantic
  versioning they refer to; they instantiate the parameter of the comparator wherever a
  concrete version string is evaluated.
\<close>

datatype prerelease_id = NumericId nat | AlphanumId string

record semver =
  sv_major :: nat
  sv_minor :: nat
  sv_patch :: nat
  sv_pre :: "prerelease_id list"
  sv_metadata :: string

definition is_digit :: "char \<Rightarrow> bool" where
  "is_digit c = (c \<in> set ''0123456789'')"

definition is_ident_char :: "char \<Rightarrow> bool" where
  "is_ident_char c =
     (is_digit c \<or> c \<in> set ''abcdefghijklmnopqrstuvwxyzABCDEFGHIJKLMNOPQRSTUVWXYZ-'')"

text \<open>Modelled from the spec: splitting a string at every occurrence of a separator.\<close>

fun split_on :: "char \<Rightarrow> string \<Rightarrow> string list" where
  "split_on c [] = [[]]"
| "split_on c (x # xs) =
     (if x = c then [] # split_on c xs
      else (case split_on c xs of y # ys \<Rightarrow> (x # y) # ys | [] \<Rightarrow> [[x]]))"

text \<open>Modelled from the spec: splitting a string at the first occurrence of a separator.\<close>

fun break_at :: "char \<Rightarrow> string \<Rightarrow> string \<times> string option" where
  "break_at c [] = ([], None)"
| "break_at c (x # xs) =
     (if x = c then ([], Some xs)
      else (x # fst (break_at c xs), snd (break_at c xs)))"

definition numeric :: "string \<Rightarrow> bool" where
  "numeric s = (s \<noteq> [] \<and> list_all is_digit s)"

definition nat_of_digits :: "string \<Rightarrow> nat" where
  "nat_of_digits s = foldl (\<lambda>n c. 10 * n + (of_char c - 48)) 0 s"

definition parse_id :: "string \<Rightarrow> prerelease_id" where
  "parse_id s = (if numeric s then NumericId (nat_of_digits s) else AlphanumId s)"

definition valid_ids :: "string list \<Rightarrow> bool" where
  "valid_ids ids = list_all (\<lambda>s. s \<noteq> [] \<and> list_all is_ident_char s) ids"

text \<open>
  Modelled from the spec: the parser, "major.minor.patch with optional pre-release/build
  metadata".
\<close>

definition semver_NewVersion :: "string \<Rightarrow> error + semver" where
  "semver_NewVersion s =
     (let body = fst (break_at CHR ''+'' s); meta = snd (break_at CHR ''+'' s);
          core = fst (break_at CHR ''-'' body); pre = snd (break_at CHR ''-'' body)
      in case split_on CHR ''.'' core of
           [a, b, c] \<Rightarrow>
             if numeric a \<and> numeric b \<and> numeric c
                \<and> (case pre of None \<Rightarrow> True | Some p \<Rightarrow> valid_ids (split_on CHR ''.'' p))
                \<and> (case meta of None \<Rightarrow> True | Some m \<Rightarrow> valid_ids (split_on CHR ''.'' m))
             then Inr \<lparr>sv_major = nat_of_digits a, sv_minor = nat_of_digits b,
                       sv_patch = nat_of_digits c,
                       sv_pre = (case pre of None \<Rightarrow> []
                                 | Some p \<Rightarrow> map parse_id (split_on CHR ''.'' p)),
                       sv_metadata = (case meta of None \<Rightarrow> [] | Some m \<Rightarrow> m)\<rparr>
             else Inl (ExternalError ''Invalid Semantic Version'')
         | _ \<Rightarrow> Inl (ExternalError ''Invalid Semantic Version''))"

text \<open>
  Modelled from the spec: pre-release precedence. Identifiers are compared from the left;
  numeric ones by value, alphanumeric ones byte by byte, a numeric one below an
  alphanumeric one, and a shorter list below a longer one it is a prefix of.
\<close>

fun bytes_less :: "string \<Rightarrow> string \<Rightarrow> bool" where
  "bytes_less [] [] = False"
| "bytes_less [] (y # ys) = True"
| "bytes_less (x # xs) [] = False"
| "bytes_less (x # xs) (y # ys) =
     ((of_char x :: nat) < of_char y \<or> (x = y \<and> bytes_less xs ys))"

fun id_less :: "prerelease_id \<Rightarrow> prerelease_id \<Rightarrow> bool" where
  "id_less (NumericId a) (NumericId b) = (a < b)"
| "id_less (NumericId a) (AlphanumId b) = True"
| "id_less (AlphanumId a) (NumericId b) = False"
| "id_less (AlphanumId a) (AlphanumId b) = bytes_less a b"

fun ids_less :: "prerelease_id list \<Rightarrow> prerelease_id list \<Rightarrow> bool" where
  "ids_less [] [] = False"
| "ids_less [] (y # ys) = True"
| "ids_less (x # xs) [] = False"
| "ids_less (x # xs) (y # ys) = (id_less x y \<or> (x = y \<and> ids_less xs ys))"

text \<open>
  Modelled from the spec: a version with a pre-release is below the same version without
  one.
\<close>

definition pre_less :: "prerelease_id list \<Rightarrow> prerelease_id list \<Rightarrow> bool" where
  "pre_less p q = (if p = [] then False else if q = [] then True else ids_less p q)"

text \<open>
  Modelled from the spec: "major, then minor, then patch, then pre-release precedence;
  build metadata is ignored for ordering".
\<close>

definition semver_LessThan :: "semver \<Rightarrow> semver \<Rightarrow> bool" where
  "semver_LessThan a b =
     (sv_major a < sv_major b \<or>
      (sv_major a = sv_major b \<and>
        (sv_minor a < sv_minor b \<or>
         (sv_minor a = sv_minor b \<and>
           (sv_patch a < sv_patch b \<or>
            (sv_patch a = sv_patch b \<and> pre_less (sv_pre a) (sv_pre b)))))))"

definition semver_v3 :: "semver semver_lib" where
  "semver_v3 = \<lparr>NewVersion = semver_NewVersion, LessThan = semver_LessThan\<rparr>"

section \<open>Notions used to state the properties\<close>

text \<open>
  The spec's words for the marker stripping of section 4.2, "strips one leading v marker",
  to be compared with \<^verbatim>\<open>strings.TrimPrefix(_, "v")\<close> of the source.
\<close>

fun strip_marker :: "string \<Rightarrow> string" where
  "strip_marker (c # s) = (if c = CHR ''v'' then s else c # s)"
| "strip_marker [] = []"

text \<open>
  What the lookup of one release leaves for the result slot of that release: the comparison,
  or nil when the lookup failed.
\<close>

definition lookup_slot :: "gateway \<Rightarrow> Release \<Rightarrow> ReleaseComparer option" where
  "lookup_slot gw release =
     (case snd (GetReleaseComparer gw release) of Inl e \<Rightarrow> None | Inr c \<Rightarrow> Some c)"

text \<open>
  The value a goroutine of \<^verbatim>\<open>src/unnamed/part_000\<close> leaves in \<^verbatim>\<open>err\<close> when no
  other goroutine runs between its statements: nil after a successful lookup, the joined
  error after a failed one.
\<close>

definition own_error :: "gateway \<Rightarrow> Release \<Rightarrow> error option" where
  "own_error gw release =
     (case snd (GetReleaseComparer gw release) of
        Inr c \<Rightarrow> None
      | Inl e \<Rightarrow> Some (Joined [e, FailedToGetReleaseComparer (Name release) e]))"

text \<open>
  The invariant of the goroutines of \<^verbatim>\<open>src/unnamed/part_000\<close>: no panic, the result
  slice keeps the length of the release list, task \<open>k\<close> holds index \<open>k\<close> and release
  \<open>k\<close>, its local \<^verbatim>\<open>comparer\<close> is the outcome of its lookup once the lookup is done,
  and its slot holds that value once the task has ended.
\<close>

definition run_inv :: "gateway \<Rightarrow> Release list \<Rightarrow> run_state \<Rightarrow> bool" where
  "run_inv gw releases st =
     (crashed st = None \<and> length (tasks st) = length releases \<and>
      length (comparisons st) = length releases \<and>
      (\<forall>k < length releases.
         task_i (tasks st ! k) = k \<and> task_release (tasks st ! k) = releases ! k \<and>
         pc (tasks st ! k) \<le> 3 \<and>
         (1 \<le> pc (tasks st ! k) \<longrightarrow>
            comparer (tasks st ! k) = lookup_slot gw (releases ! k)) \<and>
         (pc (tasks st ! k) = 3 \<longrightarrow> comparisons st ! k = comparer (tasks st ! k))))"

text \<open>
  The invariant of the goroutines of \<^verbatim>\<open>src/main.go\<close>, which holds whether or not a
  goroutine has panicked: a task that is past its lookup had a successful lookup.
\<close>

definition run_inv_main :: "gateway \<Rightarrow> Release list \<Rightarrow> run_state \<Rightarrow> bool" where
  "run_inv_main gw releases st =
     (length (tasks st) = length releases \<and>
      length (comparisons st) = length releases \<and>
      (\<forall>k < length releases.
         task_i (tasks st ! k) = k \<and> task_release (tasks st ! k) = releases ! k \<and>
         pc (tasks st ! k) \<le> 2 \<and>
         (1 \<le> pc (tasks st ! k) \<longrightarrow>
            comparer (tasks st ! k) = lookup_slot gw (releases ! k) \<and>
            lookup_slot gw (releases ! k) \<noteq> None) \<and>
         (pc (tasks st ! k) = 2 \<longrightarrow> comparisons st ! k = comparer (tasks st ! k))))"

section \<open>A concrete scenario\<close>

text \<open>
  A registry that knows the charts \<^verbatim>\<open>repoA/a\<close> (latest 1.1.0) and \<^verbatim>\<open>repoA/c\<close>
  (latest 1.0.0); the search for any other chart fails. The releases: \<open>a\<close> is behind the
  registry, \<open>b\<close> is a local chart, \<open>c\<close> declares a version that is not a semantic version,
  and the chart of \<open>x\<close> is unknown to the registry.
\<close>

definition scenario_gateway :: gateway where
  "scenario_gateway =
     \<lparr>helm_search_repo = (\<lambda>chart.
        if chart = ''repoA/a'' then Inr ''[a 1.1.0]''
        else if chart = ''repoA/c'' then Inr ''[c 1.0.0]''
        else Inl (ExternalError ''exit status 1'')),
      yaml_Unmarshal = (\<lambda>output.
        if output = ''[a 1.1.0]''
        then Inr [\<lparr>info_Name = ''repoA/a'', info_Version = ''1.1.0'', info_Installed = None\<rparr>]
        else if output = ''[c 1.0.0]''
        then Inr [\<lparr>info_Name = ''repoA/c'', info_Version = ''1.0.0'', info_Installed = None\<rparr>]
        else Inl (ExternalError ''yaml: unmarshal errors''))\<rparr>"

definition release_a :: Release where
  "release_a = \<lparr>Name = ''a'', Chart = ''repoA/a'', Version = ''1.0.0'', Installed = None\<rparr>"

definition release_b :: Release where
  "release_b = \<lparr>Name = ''b'', Chart = ''./local/b'', Version = ''2.0.0'', Installed = None\<rparr>"

definition release_c :: Release where
  "release_c =
     \<lparr>Name = ''c'', Chart = ''repoA/c'', Version = ''not-a-version'', Installed = None\<rparr>"

definition release_x :: Release where
  "release_x = \<lparr>Name = ''x'', Chart = ''repoX/x'', Version = ''0.1.0'', Installed = None\<rparr>"

definition comparison_a :: ReleaseComparer where
  "comparison_a =
     \<lparr>Current = release_a\<lparr>Installed := Some True\<rparr>,
      Latest = \<lparr>Name = ''a'', Chart = ''repoA/a'', Version = ''1.1.0'', Installed = None\<rparr>\<rparr>"

definition comparison_b :: ReleaseComparer where
  "comparison_b =
     \<lparr>Current = release_b\<lparr>Installed := Some True\<rparr>,
      Latest = release_b\<lparr>Installed := Some True\<rparr>\<rparr>"

definition comparison_c :: ReleaseComparer where
  "comparison_c =
     \<lparr>Current = release_c\<lparr>Installed := Some True\<rparr>,
      Latest = \<lparr>Name = ''c'', Chart = ''repoA/c'', Version = ''1.0.0'', Installed = None\<rparr>\<rparr>"

definition comparison_other :: ReleaseComparer where
  "comparison_other =
     \<lparr>Current = \<lparr>Name = ''other'', Chart = ''./elsewhere'', Version = ''1.0.0'',
                 Installed = Some False\<rparr>,
      Latest = \<lparr>Name = ''other'', Chart = ''repoB/b'', Version = ''1.1.0'',
                Installed = Some True\<rparr>\<rparr>"

section \<open>The comparator: basic facts\<close>

lemma TrimPrefix_v: "TrimPrefix s ''v'' = strip_marker s"
  by (cases s) (auto simp: TrimPrefix_def HasPrefix_def)

lemma HasUpdate_equal_stripped:
  assumes "TrimPrefix (Version (Current rc)) ''v'' = TrimPrefix (Version (Latest rc)) ''v''"
  shows "HasUpdate lib rc = (False, [])"
  using assms by (simp add: HasUpdate_def)

lemma HasUpdate_main_equal_stripped:
  assumes "TrimPrefix (Version (Current rc)) ''v'' = TrimPrefix (Version (Latest rc)) ''v''"
  shows "HasUpdate_main lib rc = Inr False"
  using assms by (simp add: HasUpdate_main_def)

lemma HasUpdate_current_unparsed:
  assumes "TrimPrefix (Version (Current rc)) ''v'' \<noteq> TrimPrefix (Version (Latest rc)) ''v''"
    and "NewVersion lib (TrimPrefix (Version (Current rc)) ''v'') = Inl e"
  shows "HasUpdate lib rc =
    (False, [LogFailedToParseCurrent (Name (Current rc)) (TrimPrefix (Version (Current rc)) ''v'') e])"
  using assms by (simp add: HasUpdate_def)

lemma HasUpdate_latest_unparsed:
  assumes "TrimPrefix (Version (Current rc)) ''v'' \<noteq> TrimPrefix (Version (Latest rc)) ''v''"
    and "NewVersion lib (TrimPrefix (Version (Current rc)) ''v'') = Inr cv"
    and "NewVersion lib (TrimPrefix (Version (Latest rc)) ''v'') = Inl e"
  shows "HasUpdate lib rc =
    (False, [LogFailedToParseLatest (Name (Current rc)) (TrimPrefix (Version (Latest rc)) ''v'') e])"
  using assms by (simp add: HasUpdate_def)

lemma HasUpdate_parsed:
  assumes "TrimPrefix (Version (Current rc)) ''v'' \<noteq> TrimPrefix (Version (Latest rc)) ''v''"
    and "NewVersion lib (TrimPrefix (Version (Current rc)) ''v'') = Inr cv"
    and "NewVersion lib (TrimPrefix (Version (Latest rc)) ''v'') = Inr lv"
  shows "HasUpdate lib rc = (LessThan lib cv lv, [])"
  using assms by (simp add: HasUpdate_def)

lemma HasUpdate_main_current_unparsed:
  assumes "TrimPrefix (Version (Current rc)) ''v'' \<noteq> TrimPrefix (Version (Latest rc)) ''v''"
    and "NewVersion lib (TrimPrefix (Version (Current rc)) ''v'') = Inl e"
  shows "HasUpdate_main lib rc =
    Inl (PanicWith (FailedToParseCurrentVersion (Name (Current rc)) (TrimPrefix (Version (Current rc)) ''v'') e))"
  using assms by (simp add: HasUpdate_main_def)

lemma HasUpdate_main_latest_unparsed:
  assumes "TrimPrefix (Version (Current rc)) ''v'' \<noteq> TrimPrefix (Version (Latest rc)) ''v''"
    and "NewVersion lib (TrimPrefix (Version (Current rc)) ''v'') = Inr cv"
    and "NewVersion lib (TrimPrefix (Version (Latest rc)) ''v'') = Inl e"
  shows "HasUpdate_main lib rc =
    Inl (PanicWith (FailedToParseLatestVersion (Name (Current rc)) (TrimPrefix (Version (Latest rc)) ''v'') e))"
  using assms by (simp add: HasUpdate_main_def)

lemma HasUpdate_main_parsed:
  assumes "TrimPrefix (Version (Current rc)) ''v'' \<noteq> TrimPrefix (Version (Latest rc)) ''v''"
    and "NewVersion lib (TrimPrefix (Version (Current rc)) ''v'') = Inr cv"
    and "NewVersion lib (TrimPrefix (Version (Latest rc)) ''v'') = Inr lv"
  shows "HasUpdate_main lib rc = Inr (LessThan lib cv lv)"
  using assms by (simp add: HasUpdate_main_def)

lemma HasUpdate_versions_only:
  assumes "Version (Current a) = Version (Current b)" and "Version (Latest a) = Version (Latest b)"
  shows "fst (HasUpdate lib a) = fst (HasUpdate lib b)"
  using assms by (simp add: HasUpdate_def Let_def split: sum.splits)

lemma HasUpdate_main_versions_only:
  assumes "Version (Current a) = Version (Current b)" and "Version (Latest a) = Version (Latest b)"
  shows "(HasUpdate_main lib a = Inr v) = (HasUpdate_main lib b = Inr v)"
  using assms by (simp add: HasUpdate_main_def Let_def split: sum.splits)

lemma HasUpdate_main_agrees:
  "HasUpdate_main lib rc = Inr v \<Longrightarrow> fst (HasUpdate lib rc) = v"
  by (auto simp add: HasUpdate_main_def HasUpdate_def Let_def split: sum.splits if_splits)

subsection \<open>The order of the spec-modelled library\<close>

lemma bytes_less_irrefl: "\<not> bytes_less a a"
  by (induction a) auto

lemma bytes_less_trans: "bytes_less a b \<Longrightarrow> bytes_less b c \<Longrightarrow> bytes_less a c"
  by (induction a b arbitrary: c rule: bytes_less.induct) (case_tac c; auto)+

lemma bytes_less_total: "a \<noteq> b \<Longrightarrow> bytes_less a b \<or> bytes_less b a"
  by (induction a b rule: bytes_less.induct) (auto simp: neq_iff)

lemma id_less_irrefl: "\<not> id_less a a"
  by (cases a) (auto simp: bytes_less_irrefl)

lemma id_less_trans: "id_less a b \<Longrightarrow> id_less b c \<Longrightarrow> id_less a c"
  by (cases a; cases b; cases c) (auto intro: bytes_less_trans)

lemma id_less_total: "a \<noteq> b \<Longrightarrow> id_less a b \<or> id_less b a"
  by (cases a; cases b) (auto dest: bytes_less_total)

lemma ids_less_irrefl: "\<not> ids_less a a"
  by (induction a) (auto simp: id_less_irrefl)

lemma ids_less_trans: "ids_less a b \<Longrightarrow> ids_less b c \<Longrightarrow> ids_less a c"
  by (induction a b arbitrary: c rule: ids_less.induct) (case_tac c; auto intro: id_less_trans)+

lemma ids_less_total: "a \<noteq> b \<Longrightarrow> ids_less a b \<or> ids_less b a"
  by (induction a b rule: ids_less.induct) (auto dest: id_less_total)

lemma pre_less_irrefl: "\<not> pre_less a a"
  by (simp add: pre_less_def ids_less_irrefl)

lemma pre_less_trans: "pre_less a b \<Longrightarrow> pre_less b c \<Longrightarrow> pre_less a c"
  by (auto simp: pre_less_def split: if_splits intro: ids_less_trans)

lemma pre_less_total: "a \<noteq> b \<Longrightarrow> pre_less a b \<or> pre_less b a"
  by (auto simp: pre_less_def dest: ids_less_total)

lemma semver_LessThan_irrefl: "\<not> semver_LessThan a a"
  by (simp add: semver_LessThan_def pre_less_irrefl)

lemma semver_LessThan_trans:
  "semver_LessThan a b \<Longrightarrow> semver_LessThan b c \<Longrightarrow> semver_LessThan a c"
  unfolding semver_LessThan_def
  using pre_less_trans[of "sv_pre a" "sv_pre b" "sv_pre c"]
  by (elim disjE conjE) auto

lemma semver_LessThan_total:
  "semver_LessThan a b \<or> semver_LessThan b a \<or>
   (sv_major a = sv_major b \<and> sv_minor a = sv_minor b \<and> sv_patch a = sv_patch b \<and> sv_pre a = sv_pre b)"
  unfolding semver_LessThan_def using pre_less_total[of "sv_pre a" "sv_pre b"]
  by (metis nat_neq_iff)

lemma semver_LessThan_metadata:
  "semver_LessThan (a\<lparr>sv_metadata := m\<rparr>) (b\<lparr>sv_metadata := m'\<rparr>) = semver_LessThan a b"
  by (simp add: semver_LessThan_def)

section \<open>The loop of HasUpdates\<close>

lemma HasUpdates_loop_gap_free:
  "None \<notin> set cs \<Longrightarrow>
   fst (HasUpdates_loop lib cs) = Inr (\<exists>rc. Some rc \<in> set cs \<and> fst (HasUpdate lib rc))"
proof (induction cs)
  case Nil
  then show ?case by simp
next
  case (Cons c cs)
  then obtain rc where c: "c = Some rc" by (cases c) auto
  from Cons have ih: "fst (HasUpdates_loop lib cs) = Inr (\<exists>rc. Some rc \<in> set cs \<and> fst (HasUpdate lib rc))"
    by simp
  show ?case
  proof (cases "fst (HasUpdate lib rc)")
    case True
    then show ?thesis using c by (auto simp: HasUpdate_ptr_def)
  next
    case False
    then show ?thesis using c ih by (auto simp: HasUpdate_ptr_def)
  qed
qed

lemma HasUpdates_loop_returns:
  "fst (HasUpdates_loop lib cs) = Inr b \<Longrightarrow>
   b = (\<exists>rc. Some rc \<in> set cs \<and> fst (HasUpdate lib rc)) \<and> (\<not> b \<longrightarrow> None \<notin> set cs)"
proof (induction cs)
  case Nil
  then show ?case by simp
next
  case (Cons c cs)
  show ?case
  proof (cases c)
    case None
    with Cons.prems show ?thesis by (simp add: HasUpdate_ptr_def)
  next
    case (Some rc)
    show ?thesis
    proof (cases "fst (HasUpdate lib rc)")
      case True
      with Some Cons.prems show ?thesis by (auto simp: HasUpdate_ptr_def)
    next
      case False
      with Some Cons.prems have "fst (HasUpdates_loop lib cs) = Inr b"
        by (simp add: HasUpdate_ptr_def)
      with Cons.IH have "b = (\<exists>rc. Some rc \<in> set cs \<and> fst (HasUpdate lib rc)) \<and> (\<not> b \<longrightarrow> None \<notin> set cs)" by simp
      with False Some show ?thesis by auto
    qed
  qed
qed

lemma HasUpdates_loop_panics:
  "(fst (HasUpdates_loop lib cs) = Inl p) =
   (p = NilPointerDereference \<and>
    (\<exists>before after. cs = before @ None # after \<and>
       (\<forall>c \<in> set before. \<exists>rc. c = Some rc \<and> \<not> fst (HasUpdate lib rc))))"
proof (induction cs)
  case Nil
  then show ?case by simp
next
  case (Cons c cs)
  show ?case
  proof (cases c)
    case None
    have "\<exists>before after. None # cs = before @ None # after \<and>
       (\<forall>c \<in> set before. \<exists>rc. c = Some rc \<and> \<not> fst (HasUpdate lib rc))"
      by (rule exI[of _ "[]"]) simp
    with None show ?thesis by (auto simp: HasUpdate_ptr_def)
  next
    case (Some rc)
    show ?thesis
    proof (cases "fst (HasUpdate lib rc)")
      case True
      have "\<not> (\<exists>before after. Some rc # cs = before @ None # after \<and>
       (\<forall>c \<in> set before. \<exists>rc. c = Some rc \<and> \<not> fst (HasUpdate lib rc)))"
        using True by (auto simp: Cons_eq_append_conv)
      with True Some show ?thesis by (simp add: HasUpdate_ptr_def)
    next
      case False
      have "(\<exists>before after. Some rc # cs = before @ None # after \<and>
       (\<forall>c \<in> set before. \<exists>rc. c = Some rc \<and> \<not> fst (HasUpdate lib rc))) =
        (\<exists>before after. cs = before @ None # after \<and>
       (\<forall>c \<in> set before. \<exists>rc. c = Some rc \<and> \<not> fst (HasUpdate lib rc)))" (is "?L = ?R")
      proof
        assume ?L
        then obtain before after where *: "Some rc # cs = before @ None # after"
          "\<forall>c \<in> set before. \<exists>rc. c = Some rc \<and> \<not> fst (HasUpdate lib rc)" by blast
        then obtain b' where "before = Some rc # b'" "cs = b' @ None # after"
          by (cases before) auto
        with * show ?R by auto
      next
        assume ?R
        then obtain before after where *: "cs = before @ None # after"
          "\<forall>c \<in> set before. \<exists>rc. c = Some rc \<and> \<not> fst (HasUpdate lib rc)" by blast
        have "Some rc # cs = (Some rc # before) @ None # after \<and>
            (\<forall>c \<in> set (Some rc # before). \<exists>rc. c = Some rc \<and> \<not> fst (HasUpdate lib rc))"
          using * False by auto
        then show ?L by blast
      qed
      with False Some Cons.IH show ?thesis by (simp add: HasUpdate_ptr_def)
    qed
  qed
qed

lemma HasUpdates_loop_main_gap_free:
  "None \<notin> set cs \<Longrightarrow> (\<forall>rc. Some rc \<in> set cs \<longrightarrow> (\<exists>b. HasUpdate_main lib rc = Inr b)) \<Longrightarrow>
   HasUpdates_loop_main lib cs = Inr (\<exists>rc. Some rc \<in> set cs \<and> HasUpdate_main lib rc = Inr True)"
proof (induction cs)
  case Nil
  then show ?case by simp
next
  case (Cons c cs)
  then obtain rc where c: "c = Some rc" by (cases c) auto
  from Cons.prems c obtain b where b: "HasUpdate_main lib rc = Inr b" by auto
  from Cons have ih: "HasUpdates_loop_main lib cs = Inr (\<exists>rc. Some rc \<in> set cs \<and> HasUpdate_main lib rc = Inr True)"
    by simp
  show ?case using c b ih by (cases b) (auto simp: HasUpdate_ptr_main_def)
qed

lemma HasUpdates_loop_main_returns:
  "HasUpdates_loop_main lib cs = Inr b \<Longrightarrow>
   b = (\<exists>rc. Some rc \<in> set cs \<and> HasUpdate_main lib rc = Inr True)"
proof (induction cs)
  case Nil
  then show ?case by simp
next
  case (Cons c cs)
  show ?case
  proof (cases c)
    case None
    with Cons.prems show ?thesis by (simp add: HasUpdate_ptr_main_def)
  next
    case (Some rc)
    show ?thesis
    proof (cases "HasUpdate_main lib rc")
      case (Inl p)
      with Some Cons.prems show ?thesis by (simp add: HasUpdate_ptr_main_def)
    next
      case (Inr v)
      show ?thesis
      proof (cases v)
        case True
        with Inr Some Cons.prems show ?thesis by (auto simp: HasUpdate_ptr_main_def)
      next
        case False
        with Inr Some Cons.prems have "HasUpdates_loop_main lib cs = Inr b"
          by (simp add: HasUpdate_ptr_main_def)
        with Cons.IH have "b = (\<exists>rc. Some rc \<in> set cs \<and> HasUpdate_main lib rc = Inr True)" by simp
        with False Inr Some show ?thesis by auto
      qed
    qed
  qed
qed

section \<open>The goroutines of part_000\<close>

lemma spawn_inv: "run_inv gw releases (spawn releases)"
  by (simp add: run_inv_def spawn_def)

lemma task_step_inv:
  assumes "run_inv gw releases st"
  shows "run_inv gw releases (task_step gw k st)"
proof (cases "k < length releases")
  case False
  with assms show ?thesis by (simp add: task_step_def run_inv_def)
next
  case k: True
  let ?t = "tasks st ! k"
  from assms k have len: "length (tasks st) = length releases" "length (comparisons st) = length releases"
    and nc: "crashed st = None" and tk: "task_i ?t = k" "task_release ?t = releases ! k"
    by (auto simp: run_inv_def)
  consider "pc ?t = 0" | "pc ?t = 1" | "pc ?t = 2" | "pc ?t \<ge> 3" by linarith
  then show ?thesis
  proof cases
    case 1
    obtain cs res where g: "GetReleaseComparer gw (releases ! k) = (cs, res)" by (cases "GetReleaseComparer gw (releases ! k)")
    show ?thesis
    proof (cases res)
      case (Inl e)
      with 1 g k len nc tk have "task_step gw k st = st\<lparr>err := Some e, calls := calls st @ cs,
                  tasks := (tasks st)[k := ?t\<lparr>pc := 1, comparer := None\<rparr>]\<rparr>"
        by (simp add: task_step_def Let_def)
      moreover have "lookup_slot gw (releases ! k) = None" using g Inl by (simp add: lookup_slot_def)
      ultimately show ?thesis using assms k
        by (auto simp: run_inv_def nth_list_update)
    next
      case (Inr c)
      with 1 g k len nc tk have "task_step gw k st = st\<lparr>err := None, calls := calls st @ cs,
                  tasks := (tasks st)[k := ?t\<lparr>pc := 1, comparer := Some c\<rparr>]\<rparr>"
        by (simp add: task_step_def Let_def)
      moreover have "lookup_slot gw (releases ! k) = Some c" using g Inr by (simp add: lookup_slot_def)
      ultimately show ?thesis using assms k
        by (auto simp: run_inv_def nth_list_update)
    qed
  next
    case 2
    then have "task_step gw k st = st\<lparr>err := (case err st of None \<Rightarrow> None | Some e \<Rightarrow>
                 Join [Some e, Some (FailedToGetReleaseComparer (Name (task_release ?t)) e)]),
               tasks := (tasks st)[k := ?t\<lparr>pc := 2\<rparr>]\<rparr>"
      using k len nc by (cases "err st") (simp_all add: task_step_def Let_def)
    then show ?thesis using assms k 2
      by (auto simp: run_inv_def nth_list_update)
  next
    case 3
    then have "task_step gw k st = st\<lparr>comparisons := (comparisons st)[k := comparer ?t],
                   tasks := (tasks st)[k := ?t\<lparr>pc := 3\<rparr>]\<rparr>"
      using k len nc tk by (simp add: task_step_def Let_def)
    then show ?thesis using assms k 3
      by (auto simp: run_inv_def nth_list_update)
  next
    case 4
    then have "task_step gw k st = st" using k len nc by (simp add: task_step_def Let_def)
    with assms show ?thesis by simp
  qed
qed

lemma task_step_pc:
  assumes "run_inv gw releases st" and "j < length releases"
  shows "pc (tasks (task_step gw k st) ! j) =
         (if j = k \<and> pc (tasks st ! j) < 3 then Suc (pc (tasks st ! j)) else pc (tasks st ! j))"
proof (cases "k < length releases")
  case False
  with assms show ?thesis by (auto simp add: task_step_def run_inv_def Let_def)
next
  case k: True
  let ?t = "tasks st ! k"
  from assms k have len: "length (tasks st) = length releases" "length (comparisons st) = length releases"
    and nc: "crashed st = None" and tk: "task_i ?t = k"
    by (auto simp: run_inv_def)
  show ?thesis using k len nc tk assms(2)
    by (auto simp: task_step_def Let_def nth_list_update split: prod.splits sum.splits option.splits)
qed

lemma task_step_thrice:
  assumes "run_inv gw releases st" and "k < length releases"
  shows "pc (tasks (task_step gw k (task_step gw k (task_step gw k st))) ! k) = 3"
proof -
  let ?s1 = "task_step gw k st"
  let ?s2 = "task_step gw k ?s1"
  have i1: "run_inv gw releases ?s1" using assms(1) by (rule task_step_inv)
  have i2: "run_inv gw releases ?s2" using i1 by (rule task_step_inv)
  have "pc (tasks st ! k) \<le> 3" using assms by (simp add: run_inv_def)
  then show ?thesis
    using task_step_pc[OF assms(1) assms(2), of k] task_step_pc[OF i1 assms(2), of k]
      task_step_pc[OF i2 assms(2), of k]
    by (auto split: if_splits)
qed

lemma task_step_done:
  assumes "run_inv gw releases st" and "j < length releases" and "pc (tasks st ! j) = 3"
  shows "pc (tasks (task_step gw k st) ! j) = 3"
  using task_step_pc[OF assms(1) assms(2), of k] assms(3) by simp

lemma run_schedule_inv:
  "run_inv gw releases st \<Longrightarrow> run_inv gw releases (fold (task_step gw) sched st)"
  by (induction sched arbitrary: st) (simp_all add: task_step_inv)

lemma fold_task_step_done:
  "run_inv gw releases st \<Longrightarrow> j < length releases \<Longrightarrow> pc (tasks st ! j) = 3 \<Longrightarrow>
   pc (tasks (fold (task_step gw) sched st) ! j) = 3"
  by (induction sched arbitrary: st) (simp_all add: task_step_inv task_step_done)

lemma finish_all_done:
  assumes "run_inv gw releases st" and "set ks \<subseteq> {..<length releases}"
  shows "\<forall>j < length releases. j \<in> set ks \<or> pc (tasks st ! j) = 3 \<longrightarrow>
     pc (tasks (fold (task_step gw) (concat (map (\<lambda>k. [k, k, k]) ks)) st) ! j) = 3"
  using assms
proof (induction ks arbitrary: st)
  case Nil
  then show ?case by simp
next
  case (Cons k ks)
  let ?s3 = "task_step gw k (task_step gw k (task_step gw k st))"
  have k: "k < length releases" using Cons.prems by simp
  have i3: "run_inv gw releases ?s3" using Cons.prems(1) by (intro task_step_inv)
  have ks: "set ks \<subseteq> {..<length releases}" using Cons.prems by simp
  have d3: "pc (tasks ?s3 ! k) = 3" using Cons.prems(1) k by (rule task_step_thrice)
  have keep: "\<And>j. j < length releases \<Longrightarrow> pc (tasks st ! j) = 3 \<Longrightarrow> pc (tasks ?s3 ! j) = 3"
    using fold_task_step_done[OF Cons.prems(1), of _ "[k, k, k]"] by simp
  have "\<forall>j < length releases. j \<in> set ks \<or> pc (tasks ?s3 ! j) = 3 \<longrightarrow>
     pc (tasks (fold (task_step gw) (concat (map (\<lambda>k. [k, k, k]) ks)) ?s3) ! j) = 3"
    using Cons.IH[OF i3 ks] .
  then show ?case using d3 keep by auto
qed

lemma wg_Wait_result:
  assumes "run_inv gw releases st"
  shows "run_inv gw releases (wg_Wait (task_step gw) st) \<and>
         (\<forall>j < length releases. pc (tasks (wg_Wait (task_step gw) st) ! j) = 3)"
proof -
  have len: "length (tasks st) = length releases" using assms by (simp add: run_inv_def)
  have "set [0..<length releases] \<subseteq> {..<length releases}" by auto
  from finish_all_done[OF assms this] len
  show ?thesis using assms by (auto simp: wg_Wait_def run_schedule_inv)
qed

lemma CheckForUpdates_run_final:
  "crashed (CheckForUpdates_run gw sched um) = None \<and>
   comparisons (CheckForUpdates_run gw sched um) = map (lookup_slot gw) (Releases (Helmfile um))"
proof -
  let ?rs = "Releases (Helmfile um)"
  let ?st = "CheckForUpdates_run gw sched um"
  have "run_inv gw ?rs (run_schedule (task_step gw) sched (spawn ?rs))"
    unfolding run_schedule_def by (rule run_schedule_inv, rule spawn_inv)
  from wg_Wait_result[OF this]
  have inv: "run_inv gw ?rs ?st" and fin: "\<forall>j < length ?rs. pc (tasks ?st ! j) = 3"
    by (simp_all add: CheckForUpdates_run_def)
  have "comparisons ?st = map (lookup_slot gw) ?rs"
  proof (rule nth_equalityI)
    show "length (comparisons ?st) = length (map (lookup_slot gw) ?rs)"
      using inv by (simp add: run_inv_def)
  next
    fix i assume "i < length (comparisons ?st)"
    then have i: "i < length ?rs" using inv by (simp add: run_inv_def)
    with fin have "pc (tasks ?st ! i) = 3" by simp
    with inv i show "comparisons ?st ! i = map (lookup_slot gw) ?rs ! i"
      by (simp add: run_inv_def)
  qed
  moreover have "crashed ?st = None" using inv by (simp add: run_inv_def)
  ultimately show ?thesis by simp
qed

lemma CheckForUpdates_result:
  "CheckForUpdates gw sched um =
     Inr (err (CheckForUpdates_run gw sched um),
          um\<lparr>Comparisons := map (lookup_slot gw) (Releases (Helmfile um))\<rparr>)"
  using CheckForUpdates_run_final[of gw sched um] by (simp add: CheckForUpdates_def Let_def)

lemma task_step_ended:
  "k < length (tasks st) \<longrightarrow> 3 \<le> pc (tasks st ! k) \<Longrightarrow> task_step gw k st = st"
  by (auto simp: task_step_def Let_def)

lemma wg_Wait_all_ended:
  assumes "\<forall>k < length (tasks st). 3 \<le> pc (tasks st ! k)"
  shows "wg_Wait (task_step gw) st = st"
proof -
  have "\<And>ks. fold (task_step gw) ks st = st"
  proof -
    fix ks show "fold (task_step gw) ks st = st"
      using assms by (induction ks) (simp_all add: task_step_ended)
  qed
  then show ?thesis by (simp add: wg_Wait_def)
qed

subsection \<open>The error returned when the goroutines run in manifest order\<close>

text \<open>
  With the empty schedule the goroutines run one after the other in manifest order. The
  error then returned is the one of the last release alone: whatever happened to the
  releases before it is overwritten.
\<close>

lemma task_run_alone_err:
  assumes "run_inv gw releases st" and "k < length releases" and "pc (tasks st ! k) = 0"
  shows "err (task_step gw k (task_step gw k (task_step gw k st))) = own_error gw (releases ! k)"
proof -
  let ?t = "tasks st ! k"
  from assms have len: "length (tasks st) = length releases" "length (comparisons st) = length releases"
    and nc: "crashed st = None" and tk: "task_i ?t = k" "task_release ?t = releases ! k"
    by (auto simp: run_inv_def)
  obtain cs res where g: "GetReleaseComparer gw (releases ! k) = (cs, res)"
    by (cases "GetReleaseComparer gw (releases ! k)")
  show ?thesis
  proof (cases res)
    case (Inl e)
    with g assms(2,3) len nc tk have s1: "task_step gw k st = st\<lparr>err := Some e, calls := calls st @ cs,
                  tasks := (tasks st)[k := ?t\<lparr>pc := 1, comparer := None\<rparr>]\<rparr>"
      by (simp add: task_step_def Let_def)
    have s2: "err (task_step gw k (task_step gw k st)) =
        Some (Joined [e, FailedToGetReleaseComparer (Name (releases ! k)) e]) \<and>
        crashed (task_step gw k (task_step gw k st)) = None \<and>
        length (tasks (task_step gw k (task_step gw k st))) = length releases \<and>
        pc (tasks (task_step gw k (task_step gw k st)) ! k) = 2"
      unfolding s1 using assms(2) len nc tk
      by (simp add: task_step_def Let_def Join_def List.map_filter_simps)
    then have "err (task_step gw k (task_step gw k (task_step gw k st))) =
        Some (Joined [e, FailedToGetReleaseComparer (Name (releases ! k)) e])"
      using assms(2) by (simp add: task_step_def[of gw k "task_step gw k (task_step gw k st)"] Let_def)
    with g Inl show ?thesis by (simp add: own_error_def)
  next
    case (Inr c)
    with g assms(2,3) len nc tk have s1: "task_step gw k st = st\<lparr>err := None, calls := calls st @ cs,
                  tasks := (tasks st)[k := ?t\<lparr>pc := 1, comparer := Some c\<rparr>]\<rparr>"
      by (simp add: task_step_def Let_def)
    have s2: "err (task_step gw k (task_step gw k st)) = None \<and>
        crashed (task_step gw k (task_step gw k st)) = None \<and>
        length (tasks (task_step gw k (task_step gw k st))) = length releases \<and>
        pc (tasks (task_step gw k (task_step gw k st)) ! k) = 2"
      unfolding s1 using assms(2) len nc tk
      by (simp add: task_step_def Let_def)
    then have "err (task_step gw k (task_step gw k (task_step gw k st))) = None"
      using assms(2) by (simp add: task_step_def[of gw k "task_step gw k (task_step gw k st)"] Let_def)
    with g Inr show ?thesis by (simp add: own_error_def)
  qed
qed

lemma fold_task_step_pc_untouched:
  "run_inv gw releases st \<Longrightarrow> j < length releases \<Longrightarrow> j \<notin> set sched \<Longrightarrow>
   pc (tasks (fold (task_step gw) sched st) ! j) = pc (tasks st ! j)"
proof (induction sched arbitrary: st)
  case Nil
  then show ?case by simp
next
  case (Cons k sched)
  have "pc (tasks (task_step gw k st) ! j) = pc (tasks st ! j)"
    using task_step_pc[OF Cons.prems(1,2), of k] Cons.prems(3) by simp
  moreover have "pc (tasks (fold (task_step gw) sched (task_step gw k st)) ! j) =
      pc (tasks (task_step gw k st) ! j)"
    using Cons.IH[OF task_step_inv[OF Cons.prems(1)] Cons.prems(2)] Cons.prems(3) by simp
  ultimately show ?case by simp
qed

lemma CheckForUpdates_in_manifest_order:
  assumes "Releases (Helmfile um) = rs @ [r]"
  shows "CheckForUpdates gw [] um =
     Inr (own_error gw r, um\<lparr>Comparisons := map (lookup_slot gw) (rs @ [r])\<rparr>)"
proof -
  let ?R = "rs @ [r]"
  let ?m = "length rs"
  let ?pre = "concat (map (\<lambda>k. [k, k, k]) [0..<?m])"
  let ?mid = "fold (task_step gw) ?pre (spawn ?R)"
  have inv0: "run_inv gw ?R (spawn ?R)" by (rule spawn_inv)
  have inv: "run_inv gw ?R ?mid" using inv0 by (rule run_schedule_inv)
  have m: "?m < length ?R" by simp
  have "?m \<notin> set ?pre" by auto
  from fold_task_step_pc_untouched[OF inv0 m this]
  have pc0: "pc (tasks ?mid ! ?m) = 0" by (simp add: spawn_def nth_append)
  have "CheckForUpdates_run gw [] um =
      fold (task_step gw) (concat (map (\<lambda>k. [k, k, k]) [0..<Suc ?m])) (spawn ?R)"
    using assms by (simp add: CheckForUpdates_run_def wg_Wait_def run_schedule_def spawn_def)
  also have "\<dots> = task_step gw ?m (task_step gw ?m (task_step gw ?m ?mid))" by simp
  finally have "err (CheckForUpdates_run gw [] um) = own_error gw (?R ! ?m)"
    using task_run_alone_err[OF inv m pc0] by simp
  then have "err (CheckForUpdates_run gw [] um) = own_error gw r" by simp
  with CheckForUpdates_result[of gw "[]" um] assms show ?thesis by simp
qed

section \<open>The goroutines of main.go\<close>

lemma spawn_inv_main: "run_inv_main gw releases (spawn releases)"
  by (simp add: run_inv_main_def spawn_def)

lemma task_step_main_crashed: "crashed st \<noteq> None \<Longrightarrow> task_step_main gw k st = st"
  by (simp add: task_step_main_def)

lemma fold_task_step_main_crashed:
  "crashed st \<noteq> None \<Longrightarrow> fold (task_step_main gw) ks st = st"
  by (induction ks) (simp_all add: task_step_main_crashed)

lemma fold_task_step_main_not_crashed:
  "crashed (fold (task_step_main gw) ks st) = None \<Longrightarrow> crashed st = None"
  using fold_task_step_main_crashed[of st gw ks] by (cases "crashed st") auto

lemma task_step_main_inv:
  assumes "run_inv_main gw releases st"
  shows "run_inv_main gw releases (task_step_main gw k st)"
proof (cases "k < length releases \<and> crashed st = None")
  case False
  have "length (tasks st) = length releases" using assms by (simp add: run_inv_main_def)
  with False have "task_step_main gw k st = st" by (auto simp add: task_step_main_def)
  with assms show ?thesis by simp
next
  case True
  then have k: "k < length releases" and nc: "crashed st = None" by simp_all
  let ?t = "tasks st ! k"
  from assms k have len: "length (tasks st) = length releases" "length (comparisons st) = length releases"
    and tk: "task_i ?t = k" "task_release ?t = releases ! k"
    by (auto simp: run_inv_main_def)
  consider "pc ?t = 0" | "pc ?t = 1" | "pc ?t \<ge> 2" by linarith
  then show ?thesis
  proof cases
    case 1
    obtain cs res where g: "GetReleaseComparer gw (releases ! k) = (cs, res)"
      by (cases "GetReleaseComparer gw (releases ! k)")
    show ?thesis
    proof (cases res)
      case (Inl e)
      with 1 g k len nc tk have "task_step_main gw k st =
          st\<lparr>calls := calls st @ cs, crashed := Some (PanicWith e)\<rparr>"
        by (simp add: task_step_main_def Let_def)
      then show ?thesis using assms by (simp add: run_inv_main_def)
    next
      case (Inr c)
      with 1 g k len nc tk have "task_step_main gw k st = st\<lparr>calls := calls st @ cs,
                  tasks := (tasks st)[k := ?t\<lparr>pc := 1, comparer := Some c\<rparr>]\<rparr>"
        by (simp add: task_step_main_def Let_def)
      moreover have "lookup_slot gw (releases ! k) = Some c" using g Inr by (simp add: lookup_slot_def)
      ultimately show ?thesis using assms k
        by (auto simp: run_inv_main_def nth_list_update)
    qed
  next
    case 2
    then have "task_step_main gw k st = st\<lparr>comparisons := (comparisons st)[k := comparer ?t],
                   tasks := (tasks st)[k := ?t\<lparr>pc := 2\<rparr>]\<rparr>"
      using k len nc tk by (simp add: task_step_main_def Let_def)
    then show ?thesis using assms k 2
      by (auto simp: run_inv_main_def nth_list_update)
  next
    case 3
    then have "task_step_main gw k st = st" using k len nc by (simp add: task_step_main_def Let_def)
    with assms show ?thesis by simp
  qed
qed

lemma task_step_main_pc:
  assumes "run_inv_main gw releases st" and "j < length releases"
    and "crashed (task_step_main gw k st) = None"
  shows "pc (tasks (task_step_main gw k st) ! j) =
         (if j = k \<and> pc (tasks st ! j) < 2 then Suc (pc (tasks st ! j)) else pc (tasks st ! j))"
proof (cases "k < length releases")
  case False
  with assms show ?thesis by (auto simp add: task_step_main_def run_inv_main_def Let_def)
next
  case k: True
  let ?t = "tasks st ! k"
  from assms k have len: "length (tasks st) = length releases" "length (comparisons st) = length releases"
    and tk: "task_i ?t = k"
    by (auto simp: run_inv_main_def)
  show ?thesis using k len tk assms(2,3)
    by (auto simp: task_step_main_def Let_def nth_list_update split: prod.splits sum.splits option.splits if_splits)
qed

lemma task_step_main_panic:
  assumes "run_inv_main gw releases st" and "crashed st = None"
    and "crashed (task_step_main gw k st) = Some p"
  shows "\<exists>r \<in> set releases. \<exists>e. snd (GetReleaseComparer gw r) = Inl e \<and> p = PanicWith e"
proof -
  have k: "k < length releases" using assms
    by (auto simp: task_step_main_def run_inv_main_def split: if_splits)
  let ?t = "tasks st ! k"
  from assms k have len: "length (tasks st) = length releases" "length (comparisons st) = length releases"
    and tk: "task_i ?t = k" "task_release ?t = releases ! k"
    by (auto simp: run_inv_main_def)
  from assms(2,3) k len tk
  have "\<exists>e. snd (GetReleaseComparer gw (releases ! k)) = Inl e \<and> p = PanicWith e"
    by (auto simp: task_step_main_def Let_def split: prod.splits sum.splits if_splits)
  with k show ?thesis by (metis nth_mem)
qed

lemma fold_task_step_main_inv:
  "run_inv_main gw releases st \<Longrightarrow> run_inv_main gw releases (fold (task_step_main gw) sched st)"
  by (induction sched arbitrary: st) (simp_all add: task_step_main_inv)

lemma fold_task_step_main_panic:
  "run_inv_main gw releases st \<Longrightarrow> crashed st = None \<Longrightarrow>
   crashed (fold (task_step_main gw) sched st) = Some p \<Longrightarrow>
   \<exists>r \<in> set releases. \<exists>e. snd (GetReleaseComparer gw r) = Inl e \<and> p = PanicWith e"
proof (induction sched arbitrary: st)
  case Nil
  then show ?case by simp
next
  case (Cons k sched)
  show ?case
  proof (cases "crashed (task_step_main gw k st)")
    case None
    from Cons.IH[OF task_step_main_inv[OF Cons.prems(1)] None] Cons.prems(3)
    show ?thesis by simp
  next
    case (Some q)
    then have "fold (task_step_main gw) (k # sched) st = task_step_main gw k st"
      by (simp add: fold_task_step_main_crashed)
    with Cons.prems(3) Some have "q = p" by simp
    with Some task_step_main_panic[OF Cons.prems(1,2)] show ?thesis by simp
  qed
qed

lemma fold_task_step_main_done:
  "run_inv_main gw releases st \<Longrightarrow> j < length releases \<Longrightarrow> pc (tasks st ! j) = 2 \<Longrightarrow>
   crashed (fold (task_step_main gw) sched st) = None \<Longrightarrow>
   pc (tasks (fold (task_step_main gw) sched st) ! j) = 2"
proof (induction sched arbitrary: st)
  case Nil
  then show ?case by simp
next
  case (Cons k sched)
  have nc: "crashed (task_step_main gw k st) = None"
    using Cons.prems(4) fold_task_step_main_not_crashed[of gw sched "task_step_main gw k st"] by simp
  have "pc (tasks (task_step_main gw k st) ! j) = 2"
    using task_step_main_pc[OF Cons.prems(1,2) nc] Cons.prems(3) by simp
  from Cons.IH[OF task_step_main_inv[OF Cons.prems(1)] Cons.prems(2) this] Cons.prems(4)
  show ?case by simp
qed

lemma task_step_main_twice:
  assumes "run_inv_main gw releases st" and "k < length releases"
    and "crashed (fold (task_step_main gw) [k, k, k] st) = None"
  shows "pc (tasks (fold (task_step_main gw) [k, k, k] st) ! k) = 2"
proof -
  let ?s1 = "task_step_main gw k st"
  let ?s2 = "task_step_main gw k ?s1"
  let ?s3 = "task_step_main gw k ?s2"
  have c3: "crashed ?s3 = None" using assms(3) by simp
  have c2: "crashed ?s2 = None" using c3 task_step_main_crashed[of ?s2 gw k] by (cases "crashed ?s2") auto
  have c1: "crashed ?s1 = None" using c2 task_step_main_crashed[of ?s1 gw k] by (cases "crashed ?s1") auto
  have i1: "run_inv_main gw releases ?s1" using assms(1) by (rule task_step_main_inv)
  have i2: "run_inv_main gw releases ?s2" using i1 by (rule task_step_main_inv)
  have "pc (tasks st ! k) \<le> 2" using assms by (simp add: run_inv_main_def)
  then have "pc (tasks ?s3 ! k) = 2"
    using task_step_main_pc[OF assms(1) assms(2) c1] task_step_main_pc[OF i1 assms(2) c2]
      task_step_main_pc[OF i2 assms(2) c3]
    by (auto split: if_splits)
  then show ?thesis by simp
qed

lemma finish_all_done_main:
  assumes "run_inv_main gw releases st" and "set ks \<subseteq> {..<length releases}"
    and "crashed (fold (task_step_main gw) (concat (map (\<lambda>k. [k, k, k]) ks)) st) = None"
  shows "\<forall>j < length releases. j \<in> set ks \<or> pc (tasks st ! j) = 2 \<longrightarrow>
     pc (tasks (fold (task_step_main gw) (concat (map (\<lambda>k. [k, k, k]) ks)) st) ! j) = 2"
  using assms
proof (induction ks arbitrary: st)
  case Nil
  then show ?case by simp
next
  case (Cons k ks)
  let ?s3 = "fold (task_step_main gw) [k, k, k] st"
  let ?rest = "concat (map (\<lambda>k. [k, k, k]) ks)"
  have split: "fold (task_step_main gw) (concat (map (\<lambda>k. [k, k, k]) (k # ks))) st =
       fold (task_step_main gw) ?rest ?s3" by simp
  have cf: "crashed (fold (task_step_main gw) ?rest ?s3) = None" using Cons.prems(3) split by simp
  have c3: "crashed ?s3 = None" using cf by (rule fold_task_step_main_not_crashed)
  have k: "k < length releases" using Cons.prems by simp
  have i3: "run_inv_main gw releases ?s3" using Cons.prems(1) by (rule fold_task_step_main_inv)
  have ks: "set ks \<subseteq> {..<length releases}" using Cons.prems by simp
  have d3: "pc (tasks ?s3 ! k) = 2" using Cons.prems(1) k c3 by (rule task_step_main_twice)
  have keep: "\<And>j. j < length releases \<Longrightarrow> pc (tasks st ! j) = 2 \<Longrightarrow> pc (tasks ?s3 ! j) = 2"
    using fold_task_step_main_done[OF Cons.prems(1) _ _ c3] by simp
  have "\<forall>j < length releases. j \<in> set ks \<or> pc (tasks ?s3 ! j) = 2 \<longrightarrow>
     pc (tasks (fold (task_step_main gw) ?rest ?s3) ! j) = 2"
    using Cons.IH[OF i3 ks cf] .
  then show ?case unfolding split using d3 keep by auto
qed

lemma task_step_main_ended:
  "k < length (tasks st) \<longrightarrow> 2 \<le> pc (tasks st ! k) \<Longrightarrow> task_step_main gw k st = st"
  by (auto simp: task_step_main_def Let_def)

lemma wg_Wait_main_all_ended:
  assumes "\<forall>k < length (tasks st). 2 \<le> pc (tasks st ! k)"
  shows "wg_Wait (task_step_main gw) st = st"
proof -
  have "\<And>ks. fold (task_step_main gw) ks st = st"
  proof -
    fix ks show "fold (task_step_main gw) ks st = st"
      using assms by (induction ks) (simp_all add: task_step_main_ended)
  qed
  then show ?thesis by (simp add: wg_Wait_def)
qed

lemma CheckForUpdates_run_main_final:
  assumes "crashed (CheckForUpdates_run_main gw sched um) = None"
  shows "comparisons (CheckForUpdates_run_main gw sched um) =
           map (lookup_slot gw) (Releases (Helmfile um)) \<and>
         None \<notin> set (comparisons (CheckForUpdates_run_main gw sched um))"
proof -
  let ?rs = "Releases (Helmfile um)"
  let ?st = "CheckForUpdates_run_main gw sched um"
  let ?mid = "run_schedule (task_step_main gw) sched (spawn ?rs)"
  have im: "run_inv_main gw ?rs ?mid"
    unfolding run_schedule_def by (rule fold_task_step_main_inv, rule spawn_inv_main)
  have len: "length (tasks ?mid) = length ?rs" using im by (simp add: run_inv_main_def)
  have st: "?st = fold (task_step_main gw) (concat (map (\<lambda>k. [k, k, k]) [0..<length ?rs])) ?mid"
    by (simp add: CheckForUpdates_run_main_def wg_Wait_def len)
  have inv: "run_inv_main gw ?rs ?st" unfolding st using im by (rule fold_task_step_main_inv)
  have "set [0..<length ?rs] \<subseteq> {..<length ?rs}" by auto
  from finish_all_done_main[OF im this] assms st
  have fin: "\<forall>j < length ?rs. pc (tasks ?st ! j) = 2" by simp
  have eq: "comparisons ?st = map (lookup_slot gw) ?rs"
  proof (rule nth_equalityI)
    show "length (comparisons ?st) = length (map (lookup_slot gw) ?rs)"
      using inv by (simp add: run_inv_main_def)
  next
    fix i assume "i < length (comparisons ?st)"
    then have i: "i < length ?rs" using inv by (simp add: run_inv_main_def)
    with fin have "pc (tasks ?st ! i) = 2" by simp
    with inv i show "comparisons ?st ! i = map (lookup_slot gw) ?rs ! i"
      by (simp add: run_inv_main_def)
  qed
  have "None \<notin> set (comparisons ?st)"
  proof
    assume "None \<in> set (comparisons ?st)"
    then obtain i where i: "i < length (comparisons ?st)" "comparisons ?st ! i = None"
      by (metis in_set_conv_nth)
    then have i': "i < length ?rs" using inv by (simp add: run_inv_main_def)
    with fin have "pc (tasks ?st ! i) = 2" by simp
    with inv i' i show False by (auto simp add: run_inv_main_def)
  qed
  with eq show ?thesis by simp
qed

lemma CheckForUpdates_run_main_panic:
  assumes "crashed (CheckForUpdates_run_main gw sched um) = Some p"
  shows "\<exists>r \<in> set (Releases (Helmfile um)). \<exists>e. snd (GetReleaseComparer gw r) = Inl e \<and> p = PanicWith e"
proof -
  let ?rs = "Releases (Helmfile um)"
  have len: "length (tasks (fold (task_step_main gw) sched (spawn ?rs))) = length ?rs"
    using fold_task_step_main_inv[OF spawn_inv_main, of gw ?rs sched] by (simp add: run_inv_main_def)
  have eq: "CheckForUpdates_run_main gw sched um =
     fold (task_step_main gw) (sched @ concat (map (\<lambda>k. [k, k, k]) [0..<length ?rs])) (spawn ?rs)"
    by (simp add: CheckForUpdates_run_main_def wg_Wait_def run_schedule_def len)
  have c0: "crashed (spawn ?rs) = None" by (simp add: spawn_def)
  from fold_task_step_main_panic[OF spawn_inv_main c0] assms[unfolded eq]
  show ?thesis .
qed

section \<open>The lookup: basic facts\<close>

lemma GetReleaseComparer_local:
  assumes "HasPrefix (Chart r) ''/'' \<or> HasPrefix (Chart r) ''./'' \<or> HasPrefix (Chart r) ''../''"
  shows "GetReleaseComparer gw r =
     ([], Inr \<lparr>Current = (if Installed r = None then r\<lparr>Installed := Some True\<rparr> else r),
               Latest = (if Installed r = None then r\<lparr>Installed := Some True\<rparr> else r)\<rparr>)"
  using assms by (auto simp: GetReleaseComparer_def Let_def)

lemma GetReleaseComparer_Current:
  assumes "snd (GetReleaseComparer gw r) = Inr rc"
  shows "Current rc = (if Installed r = None then r\<lparr>Installed := Some True\<rparr> else r)"
  using assms
  by (auto simp: GetReleaseComparer_def Let_def split: if_splits sum.splits list.splits)

lemma GetReleaseComparer_Latest_Name:
  assumes "snd (GetReleaseComparer gw r) = Inr rc"
  shows "Name (Latest rc) = Name r"
  using assms
  by (auto simp: GetReleaseComparer_def Let_def split: if_splits sum.splits list.splits)

lemma GetReleaseComparer_registry:
  assumes "snd (GetReleaseComparer gw r) = Inr rc"
    and "\<not> (HasPrefix (Chart r) ''/'' \<or> HasPrefix (Chart r) ''./'' \<or> HasPrefix (Chart r) ''../'')"
  shows "\<exists>output chart0 rest.
           helm_search_repo gw (Chart r) = Inr output \<and>
           yaml_Unmarshal gw output = Inr (chart0 # rest) \<and>
           Latest rc = \<lparr>Name = Name r, Chart = info_Name chart0,
                        Version = info_Version chart0, Installed = info_Installed chart0\<rparr> \<and>
           fst (GetReleaseComparer gw r) = [Chart r]"
  using assms
  by (auto simp: GetReleaseComparer_def Let_def split: if_splits sum.splits list.splits)

lemma lookup_slot_Some:
  "(lookup_slot gw r = Some rc) = (snd (GetReleaseComparer gw r) = Inr rc)"
  by (simp add: lookup_slot_def split: sum.splits)

section \<open>The scenario, evaluated\<close>

lemma lookup_a: "GetReleaseComparer scenario_gateway release_a = ([''repoA/a''], Inr comparison_a)"
  by (simp add: GetReleaseComparer_def scenario_gateway_def release_a_def comparison_a_def HasPrefix_def)

lemma lookup_b: "GetReleaseComparer scenario_gateway release_b = ([], Inr comparison_b)"
  by (simp add: GetReleaseComparer_def release_b_def comparison_b_def HasPrefix_def Let_def)

lemma lookup_c: "GetReleaseComparer scenario_gateway release_c = ([''repoA/c''], Inr comparison_c)"
  by (simp add: GetReleaseComparer_def scenario_gateway_def release_c_def comparison_c_def HasPrefix_def)

lemma lookup_x: "GetReleaseComparer scenario_gateway release_x =
    ([''repoX/x''], Inl (FailedToSearchForChart ''repoX/x'' (ExternalError ''exit status 1'')))"
  by (simp add: GetReleaseComparer_def scenario_gateway_def release_x_def HasPrefix_def)

lemma update_a: "HasUpdate semver_v3 comparison_a = (True, [])"
  by (simp add: HasUpdate_def comparison_a_def release_a_def TrimPrefix_def HasPrefix_def
      semver_v3_def semver_NewVersion_def numeric_def is_digit_def nat_of_digits_def semver_LessThan_def)

lemma update_main_a: "HasUpdate_main semver_v3 comparison_a = Inr True"
  by (simp add: HasUpdate_main_def comparison_a_def release_a_def TrimPrefix_def HasPrefix_def
      semver_v3_def semver_NewVersion_def numeric_def is_digit_def nat_of_digits_def semver_LessThan_def)

lemma update_b: "HasUpdate semver_v3 comparison_b = (False, [])"
  by (simp add: HasUpdate_def comparison_b_def)

lemma update_main_b: "HasUpdate_main semver_v3 comparison_b = Inr False"
  by (simp add: HasUpdate_main_def comparison_b_def)

lemma parse_not_a_version:
  "NewVersion semver_v3 ''not-a-version'' = Inl (ExternalError ''Invalid Semantic Version'')"
  by (simp add: semver_v3_def semver_NewVersion_def)

lemma update_c: "HasUpdate semver_v3 comparison_c =
   (False, [LogFailedToParseCurrent ''c'' ''not-a-version'' (ExternalError ''Invalid Semantic Version'')])"
  by (simp add: HasUpdate_def comparison_c_def release_c_def TrimPrefix_def HasPrefix_def
      parse_not_a_version)

lemma update_main_c: "HasUpdate_main semver_v3 comparison_c =
   Inl (PanicWith (FailedToParseCurrentVersion ''c'' ''not-a-version'' (ExternalError ''Invalid Semantic Version'')))"
  by (simp add: HasUpdate_main_def comparison_c_def release_c_def TrimPrefix_def HasPrefix_def
      parse_not_a_version)

lemma parse_1_2_0: "NewVersion semver_v3 ''1.2.0'' =
   Inr \<lparr>sv_major = 1, sv_minor = 2, sv_patch = 0, sv_pre = [], sv_metadata = []\<rparr>"
  by (simp add: semver_v3_def semver_NewVersion_def numeric_def is_digit_def nat_of_digits_def)

lemma parse_1_3_0: "NewVersion semver_v3 ''1.3.0'' =
   Inr \<lparr>sv_major = 1, sv_minor = 3, sv_patch = 0, sv_pre = [], sv_metadata = []\<rparr>"
  by (simp add: semver_v3_def semver_NewVersion_def numeric_def is_digit_def nat_of_digits_def)

section \<open>The comparator on a version that does not parse\<close>

lemma HasUpdate_parse_failure:
  assumes "TrimPrefix (Version (Current rc)) ''v'' \<noteq> TrimPrefix (Version (Latest rc)) ''v''"
    and "(\<exists>e. NewVersion lib (TrimPrefix (Version (Current rc)) ''v'') = Inl e) \<or>
         (\<exists>e. NewVersion lib (TrimPrefix (Version (Latest rc)) ''v'') = Inl e)"
  shows "fst (HasUpdate lib rc) = False \<and> length (snd (HasUpdate lib rc)) = 1"
  using assms by (auto simp: HasUpdate_def Let_def split: sum.splits)

lemma HasUpdate_main_parse_failure:
  assumes "TrimPrefix (Version (Current rc)) ''v'' \<noteq> TrimPrefix (Version (Latest rc)) ''v''"
    and "(\<exists>e. NewVersion lib (TrimPrefix (Version (Current rc)) ''v'') = Inl e) \<or>
         (\<exists>e. NewVersion lib (TrimPrefix (Version (Latest rc)) ''v'') = Inl e)"
  shows "\<exists>e. HasUpdate_main lib rc = Inl (PanicWith e)"
  using assms by (auto simp: HasUpdate_main_def Let_def split: sum.splits)

section \<open>The engine: results\<close>

lemma lookup_slot_Current:
  assumes "lookup_slot gw r = Some c"
  shows "Current c = (if Installed r = None then r\<lparr>Installed := Some True\<rparr> else r)"
  using assms GetReleaseComparer_Current[of gw r c] by (simp add: lookup_slot_Some)

lemma CheckForUpdates_main_result:
  assumes "CheckForUpdates_main gw sched um = Inr (e, um')"
  shows "e = None \<and> um' = um\<lparr>Comparisons := map (lookup_slot gw) (Releases (Helmfile um))\<rparr> \<and>
         None \<notin> set (Comparisons um')"
proof -
  from assms have nc: "crashed (CheckForUpdates_run_main gw sched um) = None"
    by (auto simp: CheckForUpdates_main_def Let_def split: option.splits)
  from CheckForUpdates_run_main_final[OF nc] assms nc show ?thesis
    by (auto simp: CheckForUpdates_main_def Let_def)
qed

lemma CheckForUpdates_main_panic:
  assumes "CheckForUpdates_main gw sched um = Inl p"
  shows "\<exists>r \<in> set (Releases (Helmfile um)). \<exists>e. snd (GetReleaseComparer gw r) = Inl e \<and> p = PanicWith e"
proof -
  from assms have "crashed (CheckForUpdates_run_main gw sched um) = Some p"
    by (auto simp: CheckForUpdates_main_def Let_def split: option.splits)
  then show ?thesis by (rule CheckForUpdates_run_main_panic)
qed

lemma scenario_run:
  "CheckForUpdates scenario_gateway [1, 1, 1, 0, 0, 0]
     (NewUpdateManager \<lparr>Releases = [release_a, release_b]\<rparr>) =
   Inr (None, \<lparr>Helmfile = \<lparr>Releases = [release_a, release_b]\<rparr>,
               Comparisons = [Some comparison_a, Some comparison_b]\<rparr>)"
  by (simp add: CheckForUpdates_def CheckForUpdates_run_def wg_Wait_def
      run_schedule_def spawn_def task_step_def lookup_a lookup_b NewUpdateManager_def
      Let_def upt_rec)

lemma CheckForUpdates_error_depends_on_schedule:
  "CheckForUpdates scenario_gateway [1, 1, 1, 0, 0, 0]
     (NewUpdateManager \<lparr>Releases = [release_x, release_a]\<rparr>) =
   Inr (Some (Joined [FailedToSearchForChart ''repoX/x'' (ExternalError ''exit status 1''),
                      FailedToGetReleaseComparer ''x''
                        (FailedToSearchForChart ''repoX/x'' (ExternalError ''exit status 1''))]),
        \<lparr>Helmfile = \<lparr>Releases = [release_x, release_a]\<rparr>,
         Comparisons = [None, Some comparison_a]\<rparr>) \<and>
   CheckForUpdates scenario_gateway [1, 0, 1, 0, 0, 1]
     (NewUpdateManager \<lparr>Releases = [release_x, release_a]\<rparr>) =
   Inr (Some (Joined
          [Joined [FailedToSearchForChart ''repoX/x'' (ExternalError ''exit status 1''),
                   FailedToGetReleaseComparer ''a''
                     (FailedToSearchForChart ''repoX/x'' (ExternalError ''exit status 1''))],
           FailedToGetReleaseComparer ''x''
             (Joined [FailedToSearchForChart ''repoX/x'' (ExternalError ''exit status 1''),
                      FailedToGetReleaseComparer ''a''
                        (FailedToSearchForChart ''repoX/x'' (ExternalError ''exit status 1''))])]),
        \<lparr>Helmfile = \<lparr>Releases = [release_x, release_a]\<rparr>,
         Comparisons = [None, Some comparison_a]\<rparr>)"
proof -
  have n: "Name release_x = ''x''" "Name release_a = ''a''"
    by (simp_all add: release_x_def release_a_def)
  show ?thesis
    by (simp add: CheckForUpdates_def CheckForUpdates_run_def wg_Wait_def run_schedule_def
      spawn_def task_step_def lookup_x lookup_a Join_def NewUpdateManager_def Let_def upt_rec
      n List.map_filter_simps)
qed

lemma scenario_main_run:
  "CheckForUpdates_main scenario_gateway [1, 1, 0, 0]
     (NewUpdateManager \<lparr>Releases = [release_a, release_b]\<rparr>) =
   Inr (None, \<lparr>Helmfile = \<lparr>Releases = [release_a, release_b]\<rparr>,
               Comparisons = [Some comparison_a, Some comparison_b]\<rparr>)"
  by (simp add: CheckForUpdates_main_def CheckForUpdates_run_main_def wg_Wait_def
      run_schedule_def spawn_def task_step_main_def lookup_a lookup_b NewUpdateManager_def
      Let_def upt_rec)

section \<open>The claims about the comparator\<close>

text \<open>
  C5. The comparator strips one leading \<^verbatim>\<open>v\<close> from each side
  (\<^verbatim>\<open>strings.TrimPrefix\<close> with prefix \<^verbatim>\<open>"v"\<close> is the spec's marker stripping), and when
  the stripped strings are identical it returns false at once, in both drafts: the result
  is the same for every version library, so no parsing takes part in it, and the draft
  that panics on a parse failure cannot panic here. In particular a comparison whose two
  version strings are the same string, semantic version or not, has no update.
\<close>

theorem HasUpdate_identical_after_stripping:
  "TrimPrefix s ''v'' = strip_marker s \<and>
   (strip_marker (Version (Current rc)) = strip_marker (Version (Latest rc)) \<longrightarrow>
      HasUpdate lib rc = (False, []) \<and> HasUpdate_main lib rc = Inr False) \<and>
   (Version (Current rc) = Version (Latest rc) \<longrightarrow>
      HasUpdate lib rc = (False, []) \<and> HasUpdate_main lib rc = Inr False)"
  by (simp add: TrimPrefix_v HasUpdate_equal_stripped HasUpdate_main_equal_stripped)

theorem HasUpdate_identical_after_stripping_witness:
  "TrimPrefix ''vv1.2.0'' ''v'' = ''v1.2.0'' \<and>
   strip_marker ''vmain'' = strip_marker ''main'' \<and>
   HasUpdate semver_v3
     \<lparr>Current = \<lparr>Name = ''a'', Chart = ''repoA/a'', Version = ''vmain'', Installed = None\<rparr>,
      Latest = \<lparr>Name = ''a'', Chart = ''repoA/a'', Version = ''main'', Installed = None\<rparr>\<rparr>
     = (False, []) \<and>
   HasUpdate_main semver_v3
     \<lparr>Current = \<lparr>Name = ''a'', Chart = ''repoA/a'', Version = ''vmain'', Installed = None\<rparr>,
      Latest = \<lparr>Name = ''a'', Chart = ''repoA/a'', Version = ''main'', Installed = None\<rparr>\<rparr>
     = Inr False"
  using HasUpdate_identical_after_stripping [of "''vv1.2.0''"
     "\<lparr>Current = \<lparr>Name = ''a'', Chart = ''repoA/a'', Version = ''vmain'', Installed = None\<rparr>,
      Latest = \<lparr>Name = ''a'', Chart = ''repoA/a'', Version = ''main'', Installed = None\<rparr>\<rparr>"
     semver_v3]
  by simp

text \<open>
  C6. When the stripped strings differ and the library parses both, the comparator returns
  what the library's \<^verbatim>\<open>LessThan\<close> says of the two parsed versions: true exactly when the
  current version is strictly below the latest one in the library's order. This holds in
  both drafts and for every library. With the library modelled from the spec the result is
  the comparison by major, then minor, then patch, then pre-release precedence, in which
  build metadata has no part; that order is a strict total order up to build metadata
  (lemmas \<open>semver_LessThan_irrefl\<close>, \<open>semver_LessThan_trans\<close>,
  \<open>semver_LessThan_total\<close>, \<open>semver_LessThan_metadata\<close>), and the two examples of
  the spec evaluate to true and to false.
\<close>

theorem HasUpdate_semver_order:
  assumes "strip_marker (Version (Current rc)) \<noteq> strip_marker (Version (Latest rc))"
  shows "(\<forall>cv lv. NewVersion lib (strip_marker (Version (Current rc))) = Inr cv \<and>
                 NewVersion lib (strip_marker (Version (Latest rc))) = Inr lv \<longrightarrow>
            HasUpdate lib rc = (LessThan lib cv lv, []) \<and>
            HasUpdate_main lib rc = Inr (LessThan lib cv lv)) \<and>
         (\<forall>cv lv. semver_NewVersion (strip_marker (Version (Current rc))) = Inr cv \<and>
                 semver_NewVersion (strip_marker (Version (Latest rc))) = Inr lv \<longrightarrow>
            fst (HasUpdate semver_v3 rc) =
              (sv_major cv < sv_major lv \<or>
               sv_major cv = sv_major lv \<and>
                 (sv_minor cv < sv_minor lv \<or>
                  sv_minor cv = sv_minor lv \<and>
                    (sv_patch cv < sv_patch lv \<or>
                     sv_patch cv = sv_patch lv \<and> pre_less (sv_pre cv) (sv_pre lv)))) \<and>
            HasUpdate_main semver_v3 rc = Inr (fst (HasUpdate semver_v3 rc)))"
proof -
  have d: "TrimPrefix (Version (Current rc)) ''v'' \<noteq> TrimPrefix (Version (Latest rc)) ''v''"
    using assms by (simp add: TrimPrefix_v)
  have general_sv: "\<And>cv lv.
      NewVersion semver_v3 (strip_marker (Version (Current rc))) = Inr cv \<Longrightarrow>
      NewVersion semver_v3 (strip_marker (Version (Latest rc))) = Inr lv \<Longrightarrow>
      HasUpdate semver_v3 rc = (LessThan semver_v3 cv lv, []) \<and>
      HasUpdate_main semver_v3 rc = Inr (LessThan semver_v3 cv lv)"
    using HasUpdate_parsed[OF d, of semver_v3] HasUpdate_main_parsed[OF d, of semver_v3]
    by (simp add: TrimPrefix_v)
  have 1: "\<forall>cv lv. NewVersion lib (strip_marker (Version (Current rc))) = Inr cv \<and>
                 NewVersion lib (strip_marker (Version (Latest rc))) = Inr lv \<longrightarrow>
            HasUpdate lib rc = (LessThan lib cv lv, []) \<and>
            HasUpdate_main lib rc = Inr (LessThan lib cv lv)"
    using HasUpdate_parsed[OF d, of lib] HasUpdate_main_parsed[OF d, of lib]
    by (simp add: TrimPrefix_v)
  have 2: "\<forall>cv lv. semver_NewVersion (strip_marker (Version (Current rc))) = Inr cv \<and>
                 semver_NewVersion (strip_marker (Version (Latest rc))) = Inr lv \<longrightarrow>
            fst (HasUpdate semver_v3 rc) =
              (sv_major cv < sv_major lv \<or>
               sv_major cv = sv_major lv \<and>
                 (sv_minor cv < sv_minor lv \<or>
                  sv_minor cv = sv_minor lv \<and>
                    (sv_patch cv < sv_patch lv \<or>
                     sv_patch cv = sv_patch lv \<and> pre_less (sv_pre cv) (sv_pre lv)))) \<and>
            HasUpdate_main semver_v3 rc = Inr (fst (HasUpdate semver_v3 rc))"
  proof (intro allI impI)
    fix cv lv
    assume "semver_NewVersion (strip_marker (Version (Current rc))) = Inr cv \<and>
            semver_NewVersion (strip_marker (Version (Latest rc))) = Inr lv"
    then have "NewVersion semver_v3 (strip_marker (Version (Current rc))) = Inr cv"
      and "NewVersion semver_v3 (strip_marker (Version (Latest rc))) = Inr lv"
      by (simp_all add: semver_v3_def)
    from general_sv[OF this]
    show "fst (HasUpdate semver_v3 rc) =
              (sv_major cv < sv_major lv \<or>
               sv_major cv = sv_major lv \<and>
                 (sv_minor cv < sv_minor lv \<or>
                  sv_minor cv = sv_minor lv \<and>
                    (sv_patch cv < sv_patch lv \<or>
                     sv_patch cv = sv_patch lv \<and> pre_less (sv_pre cv) (sv_pre lv)))) \<and>
            HasUpdate_main semver_v3 rc = Inr (fst (HasUpdate semver_v3 rc))"
      by (simp add: semver_v3_def semver_LessThan_def)
  qed
  from 1 2 show ?thesis by (rule conjI)
qed

theorem HasUpdate_semver_order_witness:
  "HasUpdate semver_v3
     \<lparr>Current = \<lparr>Name = ''a'', Chart = ''repoA/a'', Version = ''v1.2.0'', Installed = None\<rparr>,
      Latest = \<lparr>Name = ''a'', Chart = ''repoA/a'', Version = ''1.3.0'', Installed = None\<rparr>\<rparr>
     = (True, []) \<and>
   HasUpdate semver_v3
     \<lparr>Current = \<lparr>Name = ''a'', Chart = ''repoA/a'', Version = ''1.3.0'', Installed = None\<rparr>,
      Latest = \<lparr>Name = ''a'', Chart = ''repoA/a'', Version = ''v1.2.0'', Installed = None\<rparr>\<rparr>
     = (False, []) \<and>
   HasUpdate_main semver_v3
     \<lparr>Current = \<lparr>Name = ''a'', Chart = ''repoA/a'', Version = ''v1.2.0'', Installed = None\<rparr>,
      Latest = \<lparr>Name = ''a'', Chart = ''repoA/a'', Version = ''1.3.0'', Installed = None\<rparr>\<rparr>
     = Inr True \<and>
   HasUpdate_main semver_v3
     \<lparr>Current = \<lparr>Name = ''a'', Chart = ''repoA/a'', Version = ''1.3.0'', Installed = None\<rparr>,
      Latest = \<lparr>Name = ''a'', Chart = ''repoA/a'', Version = ''v1.2.0'', Installed = None\<rparr>\<rparr>
     = Inr False"
proof -
  let ?v120 = "\<lparr>sv_major = 1, sv_minor = 2, sv_patch = 0, sv_pre = [], sv_metadata = []\<rparr>"
  let ?v130 = "\<lparr>sv_major = 1, sv_minor = 3, sv_patch = 0, sv_pre = [], sv_metadata = []\<rparr>"
  let ?up = "\<lparr>Current = \<lparr>Name = ''a'', Chart = ''repoA/a'', Version = ''v1.2.0'', Installed = None\<rparr>,
      Latest = \<lparr>Name = ''a'', Chart = ''repoA/a'', Version = ''1.3.0'', Installed = None\<rparr>\<rparr>"
  let ?down = "\<lparr>Current = \<lparr>Name = ''a'', Chart = ''repoA/a'', Version = ''1.3.0'', Installed = None\<rparr>,
      Latest = \<lparr>Name = ''a'', Chart = ''repoA/a'', Version = ''v1.2.0'', Installed = None\<rparr>\<rparr>"
  have lt: "LessThan semver_v3 ?v120 ?v130" "\<not> LessThan semver_v3 ?v130 ?v120"
    by (simp_all add: semver_v3_def semver_LessThan_def)
  have du: "strip_marker (Version (Current ?up)) \<noteq> strip_marker (Version (Latest ?up))"
    and dd: "strip_marker (Version (Current ?down)) \<noteq> strip_marker (Version (Latest ?down))"
    by simp_all
  have pu: "NewVersion semver_v3 (strip_marker (Version (Current ?up))) = Inr ?v120 \<and>
            NewVersion semver_v3 (strip_marker (Version (Latest ?up))) = Inr ?v130"
    and pd: "NewVersion semver_v3 (strip_marker (Version (Current ?down))) = Inr ?v130 \<and>
            NewVersion semver_v3 (strip_marker (Version (Latest ?down))) = Inr ?v120"
    by (simp_all add: parse_1_2_0 parse_1_3_0)
  have "HasUpdate semver_v3 ?up = (LessThan semver_v3 ?v120 ?v130, []) \<and>
        HasUpdate_main semver_v3 ?up = Inr (LessThan semver_v3 ?v120 ?v130)"
    using conjunct1 [OF HasUpdate_semver_order [OF du, of semver_v3], THEN spec, THEN spec,
        THEN mp, OF pu] .
  moreover have "HasUpdate semver_v3 ?down = (LessThan semver_v3 ?v130 ?v120, []) \<and>
        HasUpdate_main semver_v3 ?down = Inr (LessThan semver_v3 ?v130 ?v120)"
    using conjunct1 [OF HasUpdate_semver_order [OF dd, of semver_v3], THEN spec, THEN spec,
        THEN mp, OF pd] .
  ultimately show ?thesis using lt by simp
qed

text \<open>
  C10. Two comparisons with the same current version string and the same latest version
  string get the same decision: \<^verbatim>\<open>HasUpdate\<close> of part_000 returns the same boolean;
  \<^verbatim>\<open>HasUpdate\<close> of main.go returns the same boolean or panics on both. Names, chart
  references and installed flags have no part in it; the name appears only in the log line
  and in the panic message.
\<close>

theorem HasUpdate_depends_on_versions_only:
  assumes "Version (Current a) = Version (Current b)"
    and "Version (Latest a) = Version (Latest b)"
  shows "fst (HasUpdate lib a) = fst (HasUpdate lib b) \<and>
         (\<forall>v. (HasUpdate_main lib a = Inr v) = (HasUpdate_main lib b = Inr v)) \<and>
         ((\<exists>p. HasUpdate_main lib a = Inl p) = (\<exists>p. HasUpdate_main lib b = Inl p))"
proof -
  have m: "\<forall>v. (HasUpdate_main lib a = Inr v) = (HasUpdate_main lib b = Inr v)"
    using HasUpdate_main_versions_only[OF assms] by blast
  have "(\<exists>p. HasUpdate_main lib a = Inl p) = (\<exists>p. HasUpdate_main lib b = Inl p)"
  proof (cases "HasUpdate_main lib a")
    case (Inl p)
    with m have "\<forall>v. HasUpdate_main lib b \<noteq> Inr v" by simp
    then have "\<exists>q. HasUpdate_main lib b = Inl q" by (cases "HasUpdate_main lib b") auto
    with Inl show ?thesis by simp
  next
    case (Inr v)
    with m have "HasUpdate_main lib b = Inr v" by blast
    with Inr show ?thesis by simp
  qed
  with m HasUpdate_versions_only[OF assms] show ?thesis by simp
qed

theorem HasUpdate_depends_on_versions_only_witness:
  "Version (Current comparison_a) = Version (Current comparison_other) \<and>
   Version (Latest comparison_a) = Version (Latest comparison_other) \<and>
   fst (HasUpdate semver_v3 comparison_other) = True \<and>
   HasUpdate_main semver_v3 comparison_other = Inr True"
proof -
  have h1: "Version (Current comparison_a) = Version (Current comparison_other)"
    by (simp add: comparison_a_def release_a_def comparison_other_def)
  have h2: "Version (Latest comparison_a) = Version (Latest comparison_other)"
    by (simp add: comparison_a_def comparison_other_def)
  from HasUpdate_depends_on_versions_only [OF h1 h2, of semver_v3]
  have "fst (HasUpdate semver_v3 comparison_other) = fst (HasUpdate semver_v3 comparison_a)"
    and "HasUpdate_main semver_v3 comparison_other = Inr True"
    using update_main_a by auto
  with h1 h2 update_a show ?thesis by simp
qed

section \<open>The claims about the lookup\<close>

text \<open>
  C4. For a release whose chart reference begins with \<^verbatim>\<open>/\<close>, \<^verbatim>\<open>./\<close> or \<^verbatim>\<open>../\<close>
  the lookup runs no external search (its list of searches is empty) and succeeds with
  latest equal to current, current being the release with its installed flag defaulted.
  Whatever the declared version string and whatever the version library, the comparison
  is then reported as up to date, in both drafts.
\<close>

theorem local_chart_is_up_to_date:
  assumes "HasPrefix (Chart r) ''/'' \<or> HasPrefix (Chart r) ''./'' \<or> HasPrefix (Chart r) ''../''"
  shows "\<exists>rc. GetReleaseComparer gw r = ([], Inr rc) \<and>
              Latest rc = Current rc \<and>
              Current rc = (if Installed r = None then r\<lparr>Installed := Some True\<rparr> else r) \<and>
              HasUpdate lib rc = (False, []) \<and> HasUpdate_main lib rc = Inr False"
proof -
  let ?d = "if Installed r = None then r\<lparr>Installed := Some True\<rparr> else r"
  let ?rc = "\<lparr>Current = ?d, Latest = ?d\<rparr>"
  have "GetReleaseComparer gw r = ([], Inr ?rc)" using assms by (rule GetReleaseComparer_local)
  moreover have "HasUpdate lib ?rc = (False, [])" by (rule HasUpdate_equal_stripped) simp
  moreover have "HasUpdate_main lib ?rc = Inr False" by (rule HasUpdate_main_equal_stripped) simp
  ultimately show ?thesis by simp
qed

theorem local_chart_is_up_to_date_witness:
  "HasPrefix (Chart release_b) ''./'' \<and>
   GetReleaseComparer scenario_gateway release_b = ([], Inr comparison_b) \<and>
   Latest comparison_b = Current comparison_b \<and>
   HasUpdate semver_v3 comparison_b = (False, []) \<and>
   HasUpdate_main semver_v3 comparison_b = Inr False"
proof -
  have h: "HasPrefix (Chart release_b) ''/'' \<or> HasPrefix (Chart release_b) ''./''
      \<or> HasPrefix (Chart release_b) ''../''"
    by (simp add: release_b_def HasPrefix_def)
  from local_chart_is_up_to_date [OF h, of scenario_gateway semver_v3]
  obtain rc where rc: "GetReleaseComparer scenario_gateway release_b = ([], Inr rc)"
    "Latest rc = Current rc"
    "Current rc = (if Installed release_b = None then release_b\<lparr>Installed := Some True\<rparr> else release_b)"
    "HasUpdate semver_v3 rc = (False, [])" "HasUpdate_main semver_v3 rc = Inr False"
    by blast
  have "rc = comparison_b" using rc(2,3) by (simp add: comparison_b_def release_b_def)
  with rc show ?thesis by (simp add: release_b_def HasPrefix_def)
qed

text \<open>
  C8. Every comparison the lookup produces has the same name on both sides, the name of
  the release. When the chart reference is not a local path, the latest side takes its
  chart, version and installed flag from the first record of the decoded search output.
\<close>

theorem lookup_preserves_release_name:
  assumes "snd (GetReleaseComparer gw r) = Inr rc"
  shows "Name (Current rc) = Name (Latest rc) \<and> Name (Latest rc) = Name r \<and>
         (HasPrefix (Chart r) ''/'' \<or> HasPrefix (Chart r) ''./'' \<or> HasPrefix (Chart r) ''../''
          \<or> (\<exists>output chart0 rest.
                helm_search_repo gw (Chart r) = Inr output \<and>
                yaml_Unmarshal gw output = Inr (chart0 # rest) \<and>
                Chart (Latest rc) = info_Name chart0 \<and>
                Version (Latest rc) = info_Version chart0 \<and>
                Installed (Latest rc) = info_Installed chart0))"
proof -
  have n: "Name (Latest rc) = Name r" using assms by (rule GetReleaseComparer_Latest_Name)
  have c: "Name (Current rc) = Name r" using GetReleaseComparer_Current[OF assms] by simp
  show ?thesis
  proof (cases "HasPrefix (Chart r) ''/'' \<or> HasPrefix (Chart r) ''./'' \<or> HasPrefix (Chart r) ''../''")
    case True
    with n c show ?thesis by auto
  next
    case False
    from GetReleaseComparer_registry[OF assms False]
    obtain out chart0 rest where
      "helm_search_repo gw (Chart r) = Inr out" "yaml_Unmarshal gw out = Inr (chart0 # rest)"
      "Latest rc = \<lparr>Name = Name r, Chart = info_Name chart0,
                        Version = info_Version chart0, Installed = info_Installed chart0\<rparr>"
      by blast
    then have "\<exists>output chart0 rest.
                helm_search_repo gw (Chart r) = Inr output \<and>
                yaml_Unmarshal gw output = Inr (chart0 # rest) \<and>
                Chart (Latest rc) = info_Name chart0 \<and>
                Version (Latest rc) = info_Version chart0 \<and>
                Installed (Latest rc) = info_Installed chart0"
      by (intro exI[of _ out] exI[of _ chart0] exI[of _ rest]) simp
    with n c show ?thesis by simp
  qed
qed

theorem lookup_preserves_release_name_witness:
  "snd (GetReleaseComparer scenario_gateway release_a) = Inr comparison_a \<and>
   Name (Current comparison_a) = ''a'' \<and> Name (Latest comparison_a) = ''a'' \<and>
   Chart (Latest comparison_a) = ''repoA/a'' \<and> Version (Latest comparison_a) = ''1.1.0''"
proof -
  have h: "snd (GetReleaseComparer scenario_gateway release_a) = Inr comparison_a"
    by (simp add: lookup_a)
  from lookup_preserves_release_name [OF h]
  have "Name (Current comparison_a) = Name (Latest comparison_a)"
    and "Name (Latest comparison_a) = Name release_a" by simp_all
  with h show ?thesis by (simp add: release_a_def comparison_a_def)
qed

section \<open>The claims about the engine\<close>

text \<open>
  C3. Under every schedule of the goroutines, \<^verbatim>\<open>CheckForUpdates\<close> of part_000 returns,
  and the comparison set it stores has the length of the release list; slot \<open>i\<close> holds
  what the lookup of release \<open>i\<close> produced (the comparison, or nil when that lookup
  failed), and a comparison in slot \<open>i\<close> has release \<open>i\<close>, installed flag defaulted, as
  its current side. The same holds of \<^verbatim>\<open>CheckForUpdates\<close> of main.go whenever it returns
  instead of panicking.
\<close>

theorem CheckForUpdates_keeps_manifest_order:
  "(\<exists>e um'. CheckForUpdates gw sched um = Inr (e, um') \<and>
      length (Comparisons um') = length (Releases (Helmfile um)) \<and>
      (\<forall>i < length (Releases (Helmfile um)).
         Comparisons um' ! i = lookup_slot gw (Releases (Helmfile um) ! i) \<and>
         (\<forall>c. Comparisons um' ! i = Some c \<longrightarrow>
            Current c = (if Installed (Releases (Helmfile um) ! i) = None
                         then (Releases (Helmfile um) ! i)\<lparr>Installed := Some True\<rparr>
                         else Releases (Helmfile um) ! i)))) \<and>
   (\<forall>e um'. CheckForUpdates_main gw sched um = Inr (e, um') \<longrightarrow>
      length (Comparisons um') = length (Releases (Helmfile um)) \<and>
      (\<forall>i < length (Releases (Helmfile um)).
         Comparisons um' ! i = lookup_slot gw (Releases (Helmfile um) ! i) \<and>
         (\<forall>c. Comparisons um' ! i = Some c \<longrightarrow>
            Current c = (if Installed (Releases (Helmfile um) ! i) = None
                         then (Releases (Helmfile um) ! i)\<lparr>Installed := Some True\<rparr>
                         else Releases (Helmfile um) ! i))))"
proof -
  let ?rs = "Releases (Helmfile um)"
  let ?um' = "um\<lparr>Comparisons := map (lookup_slot gw) ?rs\<rparr>"
  have slots: "length (Comparisons ?um') = length ?rs \<and>
      (\<forall>i < length ?rs.
         Comparisons ?um' ! i = lookup_slot gw (?rs ! i) \<and>
         (\<forall>c. Comparisons ?um' ! i = Some c \<longrightarrow>
            Current c = (if Installed (?rs ! i) = None
                         then (?rs ! i)\<lparr>Installed := Some True\<rparr> else ?rs ! i)))"
    by (simp add: lookup_slot_Current)
  have "CheckForUpdates gw sched um = Inr (err (CheckForUpdates_run gw sched um), ?um')"
    by (rule CheckForUpdates_result)
  with slots have part: "\<exists>e um'. CheckForUpdates gw sched um = Inr (e, um') \<and>
      length (Comparisons um') = length ?rs \<and>
      (\<forall>i < length ?rs.
         Comparisons um' ! i = lookup_slot gw (?rs ! i) \<and>
         (\<forall>c. Comparisons um' ! i = Some c \<longrightarrow>
            Current c = (if Installed (?rs ! i) = None
                         then (?rs ! i)\<lparr>Installed := Some True\<rparr> else ?rs ! i)))"
    by blast
  have "\<And>e um'. CheckForUpdates_main gw sched um = Inr (e, um') \<Longrightarrow> um' = ?um'"
    using CheckForUpdates_main_result by blast
  with slots part show ?thesis by blast
qed

theorem CheckForUpdates_keeps_manifest_order_witness:
  "(\<exists>e um'. CheckForUpdates scenario_gateway [1, 1, 1, 0, 0, 0]
        (NewUpdateManager \<lparr>Releases = [release_a, release_b]\<rparr>) = Inr (e, um') \<and>
      Comparisons um' = [Some comparison_a, Some comparison_b]) \<and>
   (\<exists>e um'. CheckForUpdates_main scenario_gateway [1, 1, 0, 0]
        (NewUpdateManager \<lparr>Releases = [release_a, release_b]\<rparr>) = Inr (e, um') \<and>
      Comparisons um' ! 0 = Some comparison_a \<and> Comparisons um' ! 1 = Some comparison_b \<and>
      Current comparison_a = release_a\<lparr>Installed := Some True\<rparr>)"
proof -
  let ?um = "NewUpdateManager \<lparr>Releases = [release_a, release_b]\<rparr>"
  have rs: "Releases (Helmfile ?um) = [release_a, release_b]" by (simp add: NewUpdateManager_def)
  have sa: "lookup_slot scenario_gateway release_a = Some comparison_a"
    and sb: "lookup_slot scenario_gateway release_b = Some comparison_b"
    by (simp_all add: lookup_slot_def lookup_a lookup_b)
  note inst = CheckForUpdates_keeps_manifest_order [of scenario_gateway _ ?um, unfolded rs]
  from inst [of "[1, 1, 1, 0, 0, 0]"]
  obtain e um' where r: "CheckForUpdates scenario_gateway [1, 1, 1, 0, 0, 0] ?um = Inr (e, um')"
    and len: "length (Comparisons um') = length [release_a, release_b]"
    and sl: "\<forall>i < length [release_a, release_b].
         Comparisons um' ! i = lookup_slot scenario_gateway ([release_a, release_b] ! i)"
    by blast
  from sl have "Comparisons um' ! 0 = Some comparison_a" "Comparisons um' ! 1 = Some comparison_b"
    using sa sb by (simp_all)
  with len have "Comparisons um' = [Some comparison_a, Some comparison_b]"
    by (cases "Comparisons um'"; cases "tl (Comparisons um')") auto
  with r have first: "\<exists>e um'. CheckForUpdates scenario_gateway [1, 1, 1, 0, 0, 0] ?um = Inr (e, um') \<and>
      Comparisons um' = [Some comparison_a, Some comparison_b]" by blast
  let ?um2 = "\<lparr>Helmfile = \<lparr>Releases = [release_a, release_b]\<rparr>,
               Comparisons = [Some comparison_a, Some comparison_b]\<rparr>"
  from inst [of "[1, 1, 0, 0]"] scenario_main_run
  have m: "\<forall>i < length [release_a, release_b].
         Comparisons ?um2 ! i = lookup_slot scenario_gateway ([release_a, release_b] ! i) \<and>
         (\<forall>c. Comparisons ?um2 ! i = Some c \<longrightarrow>
            Current c = (if Installed ([release_a, release_b] ! i) = None
                         then ([release_a, release_b] ! i)\<lparr>Installed := Some True\<rparr>
                         else [release_a, release_b] ! i))"
    by blast
  from m have "Current comparison_a = release_a\<lparr>Installed := Some True\<rparr>"
    by (auto simp: release_a_def)
  with scenario_main_run first show ?thesis by simp
qed

text \<open>
  C9. A release whose installed flag is unset is defaulted inside the lookup only: the
  comparison's current side is the release with the flag set to true, while the release
  list of the Helmfile after \<^verbatim>\<open>CheckForUpdates\<close> (either draft) is the list it was before,
  with the flag still unset. A lookup of the stored release after the run, and a second
  run, get the same defaulted copy again.
\<close>

theorem installed_default_stays_in_the_copy:
  assumes "CheckForUpdates gw sched um = Inr (e, um') \<or>
           CheckForUpdates_main gw sched um = Inr (e, um')"
    and "i < length (Releases (Helmfile um))"
    and "Installed (Releases (Helmfile um) ! i) = None"
  shows "Helmfile um' = Helmfile um \<and>
         Installed (Releases (Helmfile um') ! i) = None \<and>
         (\<forall>rc. snd (GetReleaseComparer gw (Releases (Helmfile um') ! i)) = Inr rc \<longrightarrow>
            Current rc = (Releases (Helmfile um) ! i)\<lparr>Installed := Some True\<rparr>) \<and>
         (\<forall>c. Comparisons um' ! i = Some c \<longrightarrow>
            Current c = (Releases (Helmfile um) ! i)\<lparr>Installed := Some True\<rparr>) \<and>
         (\<forall>sched' e' um''.
            CheckForUpdates gw sched' um' = Inr (e', um'') \<or>
            CheckForUpdates_main gw sched' um' = Inr (e', um'') \<longrightarrow>
            Helmfile um'' = Helmfile um \<and> Comparisons um'' = Comparisons um')"
proof -
  let ?rs = "Releases (Helmfile um)"
  have res: "\<And>s u x u'. CheckForUpdates gw s u = Inr (x, u') \<or>
           CheckForUpdates_main gw s u = Inr (x, u') \<Longrightarrow>
           u' = u\<lparr>Comparisons := map (lookup_slot gw) (Releases (Helmfile u))\<rparr>"
    using CheckForUpdates_result CheckForUpdates_main_result by fastforce
  have um': "um' = um\<lparr>Comparisons := map (lookup_slot gw) ?rs\<rparr>" using res[OF assms(1)] .
  then have h: "Helmfile um' = Helmfile um" by simp
  have cur: "\<And>rc. snd (GetReleaseComparer gw (?rs ! i)) = Inr rc \<Longrightarrow>
           Current rc = (?rs ! i)\<lparr>Installed := Some True\<rparr>"
    using GetReleaseComparer_Current[of gw "?rs ! i"] assms(3) by simp
  have slot: "\<And>c. Comparisons um' ! i = Some c \<Longrightarrow>
            Current c = (?rs ! i)\<lparr>Installed := Some True\<rparr>"
    using um' assms(2) cur by (simp add: lookup_slot_Some)
  have again: "\<And>sched' e' um''.
            CheckForUpdates gw sched' um' = Inr (e', um'') \<or>
            CheckForUpdates_main gw sched' um' = Inr (e', um'') \<Longrightarrow>
            Helmfile um'' = Helmfile um \<and> Comparisons um'' = Comparisons um'"
    using res um' by fastforce
  show ?thesis using h assms(3) cur slot again by (simp add: h)
qed

theorem installed_default_stays_in_the_copy_witness:
  "CheckForUpdates_main scenario_gateway [1, 1, 0, 0]
     (NewUpdateManager \<lparr>Releases = [release_a, release_b]\<rparr>) =
   Inr (None, \<lparr>Helmfile = \<lparr>Releases = [release_a, release_b]\<rparr>,
               Comparisons = [Some comparison_a, Some comparison_b]\<rparr>) \<and>
   CheckForUpdates scenario_gateway [1, 1, 1, 0, 0, 0]
     (NewUpdateManager \<lparr>Releases = [release_a, release_b]\<rparr>) =
   Inr (None, \<lparr>Helmfile = \<lparr>Releases = [release_a, release_b]\<rparr>,
               Comparisons = [Some comparison_a, Some comparison_b]\<rparr>) \<and>
   Helmfile \<lparr>Helmfile = \<lparr>Releases = [release_a, release_b]\<rparr>,
             Comparisons = [Some comparison_a, Some comparison_b]\<rparr> =
     Helmfile (NewUpdateManager \<lparr>Releases = [release_a, release_b]\<rparr>) \<and>
   Installed release_a = None \<and>
   Installed (Current comparison_a) = Some True \<and>
   Current comparison_a = release_a\<lparr>Installed := Some True\<rparr> \<and>
   Releases (Helmfile \<lparr>Helmfile = \<lparr>Releases = [release_a, release_b]\<rparr>,
               Comparisons = [Some comparison_a, Some comparison_b]\<rparr>) ! 0 = release_a"
proof -
  let ?um = "NewUpdateManager \<lparr>Releases = [release_a, release_b]\<rparr>"
  let ?um' = "\<lparr>Helmfile = \<lparr>Releases = [release_a, release_b]\<rparr>,
               Comparisons = [Some comparison_a, Some comparison_b]\<rparr>"
  have h1: "CheckForUpdates scenario_gateway [1, 1, 0, 0] ?um = Inr (None, ?um') \<or>
            CheckForUpdates_main scenario_gateway [1, 1, 0, 0] ?um = Inr (None, ?um')"
    using scenario_main_run by simp
  have h2: "0 < length (Releases (Helmfile ?um))" by (simp add: NewUpdateManager_def)
  have h3: "Installed (Releases (Helmfile ?um) ! 0) = None"
    by (simp add: NewUpdateManager_def release_a_def)
  from installed_default_stays_in_the_copy [OF h1 h2 h3]
  have "Installed (Releases (Helmfile ?um') ! 0) = None"
    and "\<forall>c. Comparisons ?um' ! 0 = Some c \<longrightarrow>
            Current c = (Releases (Helmfile ?um) ! 0)\<lparr>Installed := Some True\<rparr>"
    by blast+
  then have "Installed release_a = None \<and>
             Current comparison_a = release_a\<lparr>Installed := Some True\<rparr>"
    by (simp add: NewUpdateManager_def)
  moreover
  have h1': "CheckForUpdates scenario_gateway [1, 1, 1, 0, 0, 0] ?um = Inr (None, ?um') \<or>
            CheckForUpdates_main scenario_gateway [1, 1, 1, 0, 0, 0] ?um = Inr (None, ?um')"
    using scenario_run by simp
  from installed_default_stays_in_the_copy [OF h1' h2 h3]
  have "Helmfile ?um' = Helmfile ?um" by blast
  ultimately show ?thesis using scenario_main_run scenario_run
    by (simp add: NewUpdateManager_def)
qed

text \<open>
  C7, as the spec states it, fails: \<^verbatim>\<open>HasUpdates\<close> has no check for a nil entry, and the
  first statement of \<^verbatim>\<open>HasUpdate\<close> dereferences its receiver. The set below is the one
  \<^verbatim>\<open>CheckForUpdates\<close> of part_000 produces, with a nil error, for a manifest whose first
  release cannot be looked up and whose second release is a local chart; on it
  \<^verbatim>\<open>HasUpdates\<close> panics in both drafts instead of returning false.
\<close>

theorem HasUpdates_gap_panics:
  "CheckForUpdates scenario_gateway [0, 0, 0, 1, 1, 1]
     (NewUpdateManager \<lparr>Releases = [release_x, release_b]\<rparr>) =
   Inr (None, \<lparr>Helmfile = \<lparr>Releases = [release_x, release_b]\<rparr>,
               Comparisons = [None, Some comparison_b]\<rparr>) \<and>
   HasUpdates semver_v3 \<lparr>Helmfile = \<lparr>Releases = [release_x, release_b]\<rparr>,
               Comparisons = [None, Some comparison_b]\<rparr> = (Inl NilPointerDereference, []) \<and>
   HasUpdates_main semver_v3 \<lparr>Helmfile = \<lparr>Releases = [release_x, release_b]\<rparr>,
               Comparisons = [None, Some comparison_b]\<rparr> = Inl NilPointerDereference"
proof -
  have "CheckForUpdates scenario_gateway [0, 0, 0, 1, 1, 1]
     (NewUpdateManager \<lparr>Releases = [release_x, release_b]\<rparr>) =
   Inr (None, \<lparr>Helmfile = \<lparr>Releases = [release_x, release_b]\<rparr>,
               Comparisons = [None, Some comparison_b]\<rparr>)"
    by (simp add: CheckForUpdates_def CheckForUpdates_run_def wg_Wait_def run_schedule_def
      spawn_def task_step_def lookup_x lookup_b Join_def NewUpdateManager_def Let_def upt_rec)
  then show ?thesis
    by (simp add: HasUpdates_def HasUpdates_main_def HasUpdate_ptr_def HasUpdate_ptr_main_def)
qed

text \<open>
  C7, amended. For a comparison set without gap entries, \<^verbatim>\<open>HasUpdates\<close> of part_000
  returns true exactly when some comparison of the set has an update, so false on an empty
  or all-up-to-date set. On any set, a value it returns is that same truth value; the only
  panic is the nil dereference at a gap entry, and it happens whenever a gap entry comes
  before every comparison that has an update. \<^verbatim>\<open>HasUpdates\<close> of main.go does the same on
  gap-free sets whose comparisons \<^verbatim>\<open>HasUpdate\<close> returns on, and a value it returns is
  again the truth value of "some comparison has an update".
\<close>

theorem HasUpdates_without_gaps:
  "(None \<notin> set (Comparisons um) \<longrightarrow>
      fst (HasUpdates lib um) =
        Inr (\<exists>rc. Some rc \<in> set (Comparisons um) \<and> fst (HasUpdate lib rc))) \<and>
   (\<forall>b. fst (HasUpdates lib um) = Inr b \<longrightarrow>
      b = (\<exists>rc. Some rc \<in> set (Comparisons um) \<and> fst (HasUpdate lib rc))) \<and>
   (\<forall>p. fst (HasUpdates lib um) = Inl p \<longrightarrow>
      p = NilPointerDereference \<and> None \<in> set (Comparisons um)) \<and>
   ((\<exists>before after. Comparisons um = before @ None # after \<and>
       (\<forall>c \<in> set before. \<exists>rc. c = Some rc \<and> \<not> fst (HasUpdate lib rc))) \<longrightarrow>
      fst (HasUpdates lib um) = Inl NilPointerDereference) \<and>
   (None \<notin> set (Comparisons um) \<and>
    (\<forall>rc. Some rc \<in> set (Comparisons um) \<longrightarrow> (\<exists>b. HasUpdate_main lib rc = Inr b)) \<longrightarrow>
      HasUpdates_main lib um =
        Inr (\<exists>rc. Some rc \<in> set (Comparisons um) \<and> HasUpdate_main lib rc = Inr True)) \<and>
   (\<forall>b. HasUpdates_main lib um = Inr b \<longrightarrow>
      b = (\<exists>rc. Some rc \<in> set (Comparisons um) \<and> HasUpdate_main lib rc = Inr True))"
proof -
  have 1: "None \<notin> set (Comparisons um) \<longrightarrow>
      fst (HasUpdates lib um) =
        Inr (\<exists>rc. Some rc \<in> set (Comparisons um) \<and> fst (HasUpdate lib rc))"
    by (simp add: HasUpdates_def HasUpdates_loop_gap_free)
  have 2: "\<forall>b. fst (HasUpdates lib um) = Inr b \<longrightarrow>
      b = (\<exists>rc. Some rc \<in> set (Comparisons um) \<and> fst (HasUpdate lib rc))"
    using HasUpdates_loop_returns[of lib "Comparisons um"] by (simp add: HasUpdates_def)
  have 3: "\<forall>p. fst (HasUpdates lib um) = Inl p \<longrightarrow>
      p = NilPointerDereference \<and> None \<in> set (Comparisons um)"
    using HasUpdates_loop_panics[of lib "Comparisons um"] by (auto simp: HasUpdates_def)
  have 4: "None \<notin> set (Comparisons um) \<and>
    (\<forall>rc. Some rc \<in> set (Comparisons um) \<longrightarrow> (\<exists>b. HasUpdate_main lib rc = Inr b)) \<longrightarrow>
      HasUpdates_main lib um =
        Inr (\<exists>rc. Some rc \<in> set (Comparisons um) \<and> HasUpdate_main lib rc = Inr True)"
    using HasUpdates_loop_main_gap_free[of "Comparisons um" lib] by (simp add: HasUpdates_main_def)
  have 5: "\<forall>b. HasUpdates_main lib um = Inr b \<longrightarrow>
      b = (\<exists>rc. Some rc \<in> set (Comparisons um) \<and> HasUpdate_main lib rc = Inr True)"
    using HasUpdates_loop_main_returns[of lib "Comparisons um"] by (simp add: HasUpdates_main_def)
  have 6: "(\<exists>before after. Comparisons um = before @ None # after \<and>
       (\<forall>c \<in> set before. \<exists>rc. c = Some rc \<and> \<not> fst (HasUpdate lib rc))) \<longrightarrow>
      fst (HasUpdates lib um) = Inl NilPointerDereference"
    using HasUpdates_loop_panics[of lib "Comparisons um" NilPointerDereference]
    by (simp add: HasUpdates_def)
  from 1 2 3 6 4 5 show ?thesis by (intro conjI)
qed

theorem HasUpdates_without_gaps_witness:
  "None \<notin> set [Some comparison_b, Some comparison_a] \<and>
   fst (HasUpdates semver_v3 \<lparr>Helmfile = \<lparr>Releases = [release_b, release_a]\<rparr>,
          Comparisons = [Some comparison_b, Some comparison_a]\<rparr>) = Inr True \<and>
   HasUpdates_main semver_v3 \<lparr>Helmfile = \<lparr>Releases = [release_b, release_a]\<rparr>,
          Comparisons = [Some comparison_b, Some comparison_a]\<rparr> = Inr True \<and>
   fst (HasUpdates semver_v3 \<lparr>Helmfile = \<lparr>Releases = [release_b]\<rparr>,
          Comparisons = [Some comparison_b]\<rparr>) = Inr False \<and>
   fst (HasUpdates semver_v3 \<lparr>Helmfile = \<lparr>Releases = []\<rparr>, Comparisons = []\<rparr>) = Inr False"
proof -
  let ?um = "\<lparr>Helmfile = \<lparr>Releases = [release_b, release_a]\<rparr>,
          Comparisons = [Some comparison_b, Some comparison_a]\<rparr>"
  let ?one = "\<lparr>Helmfile = \<lparr>Releases = [release_b]\<rparr>, Comparisons = [Some comparison_b]\<rparr>"
  let ?none = "\<lparr>Helmfile = \<lparr>Releases = []\<rparr>, Comparisons = []\<rparr>"
  note T = HasUpdates_without_gaps [of ?um semver_v3]
  have g: "None \<notin> set (Comparisons ?um)" by simp
  have ex: "(\<exists>rc. Some rc \<in> set (Comparisons ?um) \<and> fst (HasUpdate semver_v3 rc)) = True"
    using update_a by auto
  have exm: "(\<exists>rc. Some rc \<in> set (Comparisons ?um) \<and> HasUpdate_main semver_v3 rc = Inr True) = True"
    using update_main_a by auto
  have all: "\<forall>rc. Some rc \<in> set (Comparisons ?um) \<longrightarrow> (\<exists>b. HasUpdate_main semver_v3 rc = Inr b)"
    using update_main_a update_main_b by auto
  have a: "fst (HasUpdates semver_v3 ?um) = Inr True"
    using conjunct1 [OF T, THEN mp, OF g] unfolding ex .
  have b: "HasUpdates_main semver_v3 ?um = Inr True"
    using T [THEN conjunct2, THEN conjunct2, THEN conjunct2, THEN conjunct2, THEN conjunct1,
        THEN mp,
        OF conjI [OF g all]]
    unfolding exm .
  have g1: "None \<notin> set (Comparisons ?one)" by simp
  have ex1: "(\<exists>rc. Some rc \<in> set (Comparisons ?one) \<and> fst (HasUpdate semver_v3 rc)) = False"
    using update_b by auto
  have c: "fst (HasUpdates semver_v3 ?one) = Inr False"
    using conjunct1 [OF HasUpdates_without_gaps [of ?one semver_v3], THEN mp, OF g1]
    unfolding ex1 .
  have g0: "None \<notin> set (Comparisons ?none)" by simp
  have ex0: "(\<exists>rc. Some rc \<in> set (Comparisons ?none) \<and> fst (HasUpdate semver_v3 rc)) = False"
    by simp
  have d: "fst (HasUpdates semver_v3 ?none) = Inr False"
    using conjunct1 [OF HasUpdates_without_gaps [of ?none semver_v3], THEN mp, OF g0]
    unfolding ex0 .
  from a b c d show ?thesis by simp
qed

text \<open>
  C2 does not hold of the code. In part_000 every goroutine assigns the shared variable
  \<^verbatim>\<open>err\<close> with the outcome of its own lookup, nil included, so a later successful
  lookup erases an earlier failure. With the goroutines run one after the other in manifest
  order on the releases \<open>x\<close> (lookup fails) and \<open>a\<close> (lookup succeeds), the engine
  returns the comparison of \<open>a\<close> and a nil slot for \<open>x\<close> together with a nil error
  (lemma \<open>CheckForUpdates_in_manifest_order\<close> is the general statement for that
  schedule; lemma \<open>CheckForUpdates_error_depends_on_schedule\<close> shows the same input
  under two other schedules, one of which blames release \<open>a\<close> for the failure of
  \<open>x\<close>). In main.go the failed lookup panics inside the goroutine and nothing is
  returned.
\<close>

theorem CheckForUpdates_drops_lookup_failure:
  "CheckForUpdates scenario_gateway [0, 0, 0, 1, 1, 1]
     (NewUpdateManager \<lparr>Releases = [release_x, release_a]\<rparr>) =
   Inr (None, \<lparr>Helmfile = \<lparr>Releases = [release_x, release_a]\<rparr>,
               Comparisons = [None, Some comparison_a]\<rparr>) \<and>
   snd (GetReleaseComparer scenario_gateway release_x) =
     Inl (FailedToSearchForChart ''repoX/x'' (ExternalError ''exit status 1'')) \<and>
   CheckForUpdates_main scenario_gateway [0, 0, 0, 1, 1, 1]
     (NewUpdateManager \<lparr>Releases = [release_x, release_a]\<rparr>) =
   Inl (PanicWith (FailedToSearchForChart ''repoX/x'' (ExternalError ''exit status 1'')))"
  by (simp add: CheckForUpdates_def CheckForUpdates_run_def wg_Wait_def run_schedule_def
      CheckForUpdates_main_def CheckForUpdates_run_main_def task_step_main_def
      spawn_def task_step_def lookup_x lookup_a Join_def NewUpdateManager_def Let_def upt_rec)

text \<open>
  C1 does not hold of main.go: on current version \<^verbatim>\<open>not-a-version\<close> and latest version
  \<^verbatim>\<open>1.0.0\<close> the stripped strings differ, the current one does not parse, and
  \<^verbatim>\<open>HasUpdate\<close> panics; \<^verbatim>\<open>HasUpdates\<close> panics with it although the next release has
  an update. On the same input part_000 logs the failure and returns false, and its
  \<^verbatim>\<open>HasUpdates\<close> goes on to find the update of the next release (lemmas
  \<open>HasUpdate_parse_failure\<close> and \<open>HasUpdate_main_parse_failure\<close> state the two
  behaviours for every input).
\<close>

theorem HasUpdate_main_unparsable_version_panics:
  "TrimPrefix (Version (Current comparison_c)) ''v'' \<noteq>
     TrimPrefix (Version (Latest comparison_c)) ''v'' \<and>
   NewVersion semver_v3 (TrimPrefix (Version (Current comparison_c)) ''v'') =
     Inl (ExternalError ''Invalid Semantic Version'') \<and>
   HasUpdate_main semver_v3 comparison_c =
     Inl (PanicWith (FailedToParseCurrentVersion ''c'' ''not-a-version''
            (ExternalError ''Invalid Semantic Version''))) \<and>
   HasUpdates_main semver_v3
     \<lparr>Helmfile = \<lparr>Releases = [release_c, release_a]\<rparr>,
      Comparisons = [Some comparison_c, Some comparison_a]\<rparr> =
     Inl (PanicWith (FailedToParseCurrentVersion ''c'' ''not-a-version''
            (ExternalError ''Invalid Semantic Version''))) \<and>
   HasUpdate semver_v3 comparison_c =
     (False, [LogFailedToParseCurrent ''c'' ''not-a-version''
                (ExternalError ''Invalid Semantic Version'')]) \<and>
   HasUpdates semver_v3
     \<lparr>Helmfile = \<lparr>Releases = [release_c, release_a]\<rparr>,
      Comparisons = [Some comparison_c, Some comparison_a]\<rparr> =
     (Inr True, [LogFailedToParseCurrent ''c'' ''not-a-version''
                (ExternalError ''Invalid Semantic Version'')])"
proof -
  have "TrimPrefix (Version (Current comparison_c)) ''v'' = ''not-a-version''"
    and "TrimPrefix (Version (Latest comparison_c)) ''v'' = ''1.0.0''"
    by (simp_all add: comparison_c_def release_c_def TrimPrefix_def HasPrefix_def)
  then show ?thesis
    by (simp add: parse_not_a_version update_c update_main_c update_a update_main_a
        HasUpdates_def HasUpdates_main_def HasUpdate_ptr_def HasUpdate_ptr_main_def)
qed

end
